theory Spec2Isabelle
  imports Main
begin

section \<open>The Sudoku solver of SudokuSolver.py\<close>

text \<open>
  The model follows the two classes of the source. A \<open>SudokuCell\<close> object is a record
  of its three fields, a \<open>SudokuGrid\<close> object a record of the 9x9 list of cells, the 9x9
  list of flags and the symbol for unknown cells. Methods that mutate an object return
  the new object. A method that can raise returns the outcome (\<open>Inl\<close> the error,
  \<open>Inr\<close> the returned value) together with the object as the raise or the return
  leaves it, since the Python objects are mutated in place and stay visible to the caller
  after an exception. Cell values and digits are Python integers (\<open>int\<close>); row, column
  and square indices are naturals, as every caller takes them from a \<open>range\<close>.
  The global \<open>DEBUG\<close> is \<open>False\<close> in the source, so the tracing branches (which
  only print and wait for input) are left out.
\<close>

subsection \<open>Errors\<close>

datatype error = UnsolvableGridError | IndexError

subsection \<open>SudokuCell\<close>

record SudokuCell =
  cell_value :: int
  cell_possible :: "int list"
  cell_impossible :: "int list"

definition DEFAULT_VALUE :: int where
  "DEFAULT_VALUE = 0"

definition get_default_value :: int where
  "get_default_value = DEFAULT_VALUE"

definition is_default_value :: "int \<Rightarrow> bool" where
  "is_default_value v = (v = get_default_value)"

definition get_value :: "SudokuCell \<Rightarrow> int" where
  "get_value c = cell_value c"

definition set_value :: "SudokuCell \<Rightarrow> int \<Rightarrow> SudokuCell" where
  "set_value c v = c\<lparr>cell_value := v\<rparr>"

definition is_value_possible :: "SudokuCell \<Rightarrow> int \<Rightarrow> bool" where
  "is_value_possible c v = (v \<in> set (cell_possible c))"

definition reset_value :: "SudokuCell \<Rightarrow> SudokuCell" where
  "reset_value c = set_value c get_default_value"

definition is_value_certain :: "SudokuCell \<Rightarrow> bool" where
  "is_value_certain c = (\<not> is_default_value (get_value c))"

text \<open>The constructor \<open>SudokuCell(value)\<close>; \<open>range(9)\<close> is \<open>[0..8]\<close>.\<close>

definition SudokuCell_init :: "int \<Rightarrow> SudokuCell" where
  "SudokuCell_init v =
     (if \<not> is_default_value v
      then \<lparr>cell_value = v, cell_possible = [v],
            cell_impossible = filter (\<lambda>x. x \<notin> set [v]) [0..8]\<rparr>
      else \<lparr>cell_value = v, cell_possible = [1..9], cell_impossible = []\<rparr>)"

definition can_value_be_determined :: "SudokuCell \<Rightarrow> (error + bool) \<times> SudokuCell" where
  "can_value_be_determined c =
     (if is_value_certain c then (Inr False, c)
      else if length (cell_possible c) = 1 then (Inr True, set_value c (cell_possible c ! 0))
      else if length (cell_possible c) = 0 then (Inl UnsolvableGridError, c)
      else (Inr False, c))"

text \<open>
  The loop of \<open>set_value_to_impossible\<close> that looks for the index where the list stays
  sorted, followed by \<open>insert(index, value)\<close>.
\<close>

fun insert_sorted :: "int \<Rightarrow> int list \<Rightarrow> int list" where
  "insert_sorted v [] = [v]"
| "insert_sorted v (x # xs) = (if v > x then x # insert_sorted v xs else v # x # xs)"

text \<open>Python's \<open>list.remove\<close> deletes the first occurrence: \<open>remove1\<close>.\<close>

definition set_value_to_impossible :: "SudokuCell \<Rightarrow> int \<Rightarrow> SudokuCell" where
  "set_value_to_impossible c v =
     (if v \<in> set (cell_possible c)
      then c\<lparr>cell_possible := remove1 v (cell_possible c),
             cell_impossible := insert_sorted v (cell_impossible c)\<rparr>
      else c)"

text \<open>
  \<open>eliminate_conflicting_values self other\<close> returns the outcome and the two cells
  \<open>self\<close> and \<open>other\<close> as the call leaves them.
\<close>

definition eliminate_conflicting_values ::
  "SudokuCell \<Rightarrow> SudokuCell \<Rightarrow> (error + bool) \<times> SudokuCell \<times> SudokuCell" where
  "eliminate_conflicting_values self other =
     (let self_is_certain = is_value_certain self;
          other_is_certain = is_value_certain other
      in if self_is_certain \<and> \<not> other_is_certain then
           (case can_value_be_determined (set_value_to_impossible other (get_value self)) of
              (res, uncertain_cell) \<Rightarrow> (res, self, uncertain_cell))
         else if \<not> self_is_certain \<and> other_is_certain then
           (case can_value_be_determined (set_value_to_impossible self (get_value other)) of
              (res, uncertain_cell) \<Rightarrow> (res, uncertain_cell, other))
         else (Inr False, self, other))"

definition clone_cell :: "SudokuCell \<Rightarrow> SudokuCell" where
  "clone_cell c = SudokuCell_init (get_value c)"

subsection \<open>Statements that can raise\<close>

text \<open>
  A statement run on a state \<open>s\<close> gives \<open>(Inr (), s')\<close> when it completes and
  \<open>(Inl e, s')\<close> when it raises \<open>e\<close>, with \<open>s'\<close> the state reached. \<open>for_loop\<close> is
  Python's \<open>for x in xs: body\<close>, \<open>then_do\<close> is sequencing and \<open>do_if\<close> is an \<open>if\<close>
  without \<open>else\<close>; a raise ends all three at once.
\<close>

fun for_loop :: "'a list \<Rightarrow> ('a \<Rightarrow> 's \<Rightarrow> (error + unit) \<times> 's) \<Rightarrow> 's \<Rightarrow> (error + unit) \<times> 's" where
  "for_loop [] body s = (Inr (), s)"
| "for_loop (x # xs) body s =
     (case body x s of
        (Inl e, s') \<Rightarrow> (Inl e, s')
      | (Inr u, s') \<Rightarrow> for_loop xs body s')"

definition then_do ::
  "('s \<Rightarrow> (error + unit) \<times> 's) \<Rightarrow> ('s \<Rightarrow> (error + unit) \<times> 's) \<Rightarrow> 's \<Rightarrow> (error + unit) \<times> 's" where
  "then_do first second s =
     (case first s of
        (Inl e, s') \<Rightarrow> (Inl e, s')
      | (Inr u, s') \<Rightarrow> second s')"

definition do_if :: "('s \<Rightarrow> bool) \<Rightarrow> ('s \<Rightarrow> (error + unit) \<times> 's) \<Rightarrow> 's \<Rightarrow> (error + unit) \<times> 's" where
  "do_if cond body s = (if cond s then body s else (Inr (), s))"

subsection \<open>SudokuGrid\<close>

record SudokuGrid =
  grid :: "SudokuCell list list"
  used_cell :: "bool list list"
  custom_unknown_cell_symbol :: string

text \<open>
  \<open>SudokuGrid.__init__\<close> builds 9 rows of 9 cells and 9 rows of 9 flags, and no method
  changes these shapes: every grid object satisfies \<open>wf_grid\<close>, and under it every index
  expression of the methods below is in range.
\<close>

definition wf_grid :: "SudokuGrid \<Rightarrow> bool" where
  "wf_grid g =
     (length (grid g) = 9 \<and> list_all (\<lambda>row. length row = 9) (grid g) \<and>
      length (used_cell g) = 9 \<and> list_all (\<lambda>row. length row = 9) (used_cell g))"

definition SudokuGrid_init :: "string \<Rightarrow> SudokuGrid" where
  "SudokuGrid_init custom_unk_symb =
     \<lparr>grid = replicate 9 (replicate 9 (SudokuCell_init DEFAULT_VALUE)),
      used_cell = replicate 9 (replicate 9 False),
      custom_unknown_cell_symbol = custom_unk_symb\<rparr>"

text \<open>\<open>self._grid[row][column]\<close>, read and (for the object stored there) updated.\<close>

definition cell_at :: "SudokuGrid \<Rightarrow> nat \<times> nat \<Rightarrow> SudokuCell" where
  "cell_at g p = grid g ! fst p ! snd p"

definition put_cell :: "SudokuGrid \<Rightarrow> nat \<times> nat \<Rightarrow> SudokuCell \<Rightarrow> SudokuGrid" where
  "put_cell g p c = g\<lparr>grid := (grid g)[fst p := (grid g ! fst p)[snd p := c]]\<rparr>"

definition Grid_set_value :: "SudokuGrid \<Rightarrow> nat \<Rightarrow> nat \<Rightarrow> int \<Rightarrow> SudokuGrid" where
  "Grid_set_value g row col v = put_cell g (row, col) (set_value (cell_at g (row, col)) v)"

text \<open>
  \<open>create_from_matrix\<close>: the matrix comes from outside, so the index errors of
  \<open>grid[i][j]\<close> and \<open>matrix[i][j]\<close> are written out.
\<close>

fun create_from_matrix_row ::
  "int list list \<Rightarrow> nat \<Rightarrow> nat list \<Rightarrow> SudokuGrid \<Rightarrow> error + SudokuGrid" where
  "create_from_matrix_row matrix i [] g = Inr g"
| "create_from_matrix_row matrix i (j # js) g =
     (if i < length (grid g) \<and> j < length (grid g ! i) \<and> j < length (matrix ! i)
      then create_from_matrix_row matrix i js (Grid_set_value g i j (matrix ! i ! j))
      else Inl IndexError)"

fun create_from_matrix_rows ::
  "int list list \<Rightarrow> nat list \<Rightarrow> SudokuGrid \<Rightarrow> error + SudokuGrid" where
  "create_from_matrix_rows matrix [] g = Inr g"
| "create_from_matrix_rows matrix (i # is) g =
     (case create_from_matrix_row matrix i [0..<length (matrix ! 0)] g of
        Inl e \<Rightarrow> Inl e
      | Inr g' \<Rightarrow> create_from_matrix_rows matrix is g')"

definition create_from_matrix :: "int list list \<Rightarrow> error + SudokuGrid" where
  "create_from_matrix matrix =
     create_from_matrix_rows matrix [0..<length matrix] (SudokuGrid_init [])"

definition get_as_matrix :: "SudokuGrid \<Rightarrow> int list list" where
  "get_as_matrix g =
     fold (\<lambda>i. fold (\<lambda>j matrix. matrix[i := (matrix ! i)[j := get_value (cell_at g (i, j))]])
                    [0..<length (grid g ! 0)])
          [0..<length (grid g)]
          (replicate 9 (replicate 9 (- 1)))"

definition get_square_code :: "nat \<Rightarrow> nat \<Rightarrow> nat" where
  "get_square_code row column =
     (let horizontal_num = (if row \<le> 2 then 0 else if row \<le> 5 then 1 else 2);
          vertical_num = (if column \<le> 2 then 0 else if column \<le> 5 then 1 else 2)
      in horizontal_num * 3 + vertical_num)"

text \<open>
  \<open>get_square_cells\<close> returns references to the cell objects of the square. The
  positions of these objects are \<open>get_square_positions\<close>; the cells read through them
  are \<open>get_square_cells\<close>.
\<close>

definition get_square_positions :: "nat \<Rightarrow> (nat \<times> nat) list" where
  "get_square_positions square_code =
     (let horizontal_num = square_code mod 3;
          vertical_num = (square_code - horizontal_num) div 3
      in concat (map (\<lambda>row. map (\<lambda>column. (row, column))
                                 [horizontal_num * 3..<(horizontal_num + 1) * 3])
                     [vertical_num * 3..<(vertical_num + 1) * 3]))"

definition get_square_cells :: "SudokuGrid \<Rightarrow> nat \<Rightarrow> SudokuCell list" where
  "get_square_cells g square_code = map (cell_at g) (get_square_positions square_code)"

text \<open>
  The loop of \<open>is_solved\<close>. It does not advance after a successful
  \<open>can_value_be_determined\<close>, so it is a partial function: \<open>None\<close> is a loop that
  never ends.
\<close>

partial_function (option) is_solved_loop ::
  "bool \<Rightarrow> nat \<Rightarrow> SudokuGrid \<Rightarrow> ((error + bool) \<times> SudokuGrid) option" where
  "is_solved_loop solved index g =
     (if solved \<and> index < length (grid g) * length (grid g ! 0) then
        (let column = index mod length (grid g ! 0);
             row = (index - column) div length (grid g ! 0)
         in if \<not> is_value_certain (cell_at g (row, column)) then
              (case can_value_be_determined (cell_at g (row, column)) of
                 (Inl e, c) \<Rightarrow> Some (Inl e, put_cell g (row, column) c)
               | (Inr determined, c) \<Rightarrow>
                   if \<not> determined
                   then is_solved_loop False index (put_cell g (row, column) c)
                   else is_solved_loop solved index (put_cell g (row, column) c))
            else is_solved_loop solved (index + 1) g)
      else Some (Inr solved, g))"

definition is_solved :: "SudokuGrid \<Rightarrow> ((error + bool) \<times> SudokuGrid) option" where
  "is_solved g = is_solved_loop True 0 g"

subsection \<open>solve\<close>

text \<open>
  The state of one pass of the \<open>while\<close> loop of \<open>solve\<close> is the counter
  \<open>number_new_determined\<close> and the grid.

  \<open>eliminate_peer p q\<close> is the statement
  \<open>number_new_determined += self._grid[p].eliminate_conflicting_values(self._grid[q])\<close>.
\<close>

definition eliminate_peer ::
  "nat \<times> nat \<Rightarrow> nat \<times> nat \<Rightarrow> int \<times> SudokuGrid \<Rightarrow> (error + unit) \<times> (int \<times> SudokuGrid)" where
  "eliminate_peer p q s =
     (case s of (number_new_determined, g) \<Rightarrow>
        (case eliminate_conflicting_values (cell_at g p) (cell_at g q) of
           (Inl e, self', other') \<Rightarrow>
             (Inl e, (number_new_determined, put_cell (put_cell g p self') q other'))
         | (Inr deduced_new_cell, self', other') \<Rightarrow>
             (Inr (), (number_new_determined + of_bool deduced_new_cell,
                       put_cell (put_cell g p self') q other'))))"

definition uncertain_at :: "nat \<times> nat \<Rightarrow> int \<times> SudokuGrid \<Rightarrow> bool" where
  "uncertain_at p s = (\<not> is_value_certain (cell_at (snd s) p))"

definition mark_used :: "nat \<Rightarrow> nat \<Rightarrow> int \<times> SudokuGrid \<Rightarrow> (error + unit) \<times> (int \<times> SudokuGrid)" where
  "mark_used row column s =
     (case s of (number_new_determined, g) \<Rightarrow>
        (Inr (), (number_new_determined,
                  g\<lparr>used_cell := (used_cell g)[row := (used_cell g ! row)[column := True]]\<rparr>)))"

text \<open>
  The body of \<open>if self._grid[row][column].is_value_certain() and not
  self._used_cell[row][column]\<close>: the loop over \<open>k\<close> for the row and the column, the
  loop over the square, and the flag.
\<close>

definition use_cell :: "nat \<Rightarrow> nat \<Rightarrow> int \<times> SudokuGrid \<Rightarrow> (error + unit) \<times> (int \<times> SudokuGrid)" where
  "use_cell row column s =
     then_do
       (for_loop [0..<length (grid (snd s))] (\<lambda>k.
          then_do
            (do_if (\<lambda>s. k \<noteq> column \<and> uncertain_at (row, k) s)
               (eliminate_peer (row, k) (row, column)))
            (do_if (\<lambda>s. k \<noteq> row \<and> uncertain_at (k, column) s)
               (eliminate_peer (k, column) (row, column)))))
       (then_do
          (for_loop (get_square_positions (get_square_code row column)) (\<lambda>p.
             do_if (\<lambda>s. p \<noteq> (row, column) \<and> uncertain_at p s)
               (eliminate_peer p (row, column))))
          (mark_used row column))
       s"

definition eliminate_all :: "int \<times> SudokuGrid \<Rightarrow> (error + unit) \<times> (int \<times> SudokuGrid)" where
  "eliminate_all s =
     for_loop [0..<length (grid (snd s))] (\<lambda>row.
       for_loop [0..<length (grid (snd s))] (\<lambda>column.
         do_if (\<lambda>s. is_value_certain (cell_at (snd s) (row, column)) \<and>
                    \<not> used_cell (snd s) ! row ! column)
           (use_cell row column))) s"

text \<open>
  The \<open>while\<close> loop that collects in \<open>possible_cells\<close> the cells of the square that can
  hold \<open>v\<close>, and stops at two.
\<close>

fun find_possible_cells ::
  "SudokuGrid \<Rightarrow> int \<Rightarrow> (nat \<times> nat) list \<Rightarrow> (nat \<times> nat) list \<Rightarrow> (nat \<times> nat) list" where
  "find_possible_cells g v [] possible_cells = possible_cells"
| "find_possible_cells g v (p # ps) possible_cells =
     (if length possible_cells < 2
      then find_possible_cells g v ps
             (if is_value_possible (cell_at g p) v then possible_cells @ [p] else possible_cells)
      else possible_cells)"

definition check_value ::
  "(nat \<times> nat) list \<Rightarrow> int \<Rightarrow> int \<times> SudokuGrid \<Rightarrow> (error + unit) \<times> (int \<times> SudokuGrid)" where
  "check_value square_cells v s =
     (case s of (number_new_determined, g) \<Rightarrow>
        (let possible_cells = find_possible_cells g v square_cells []
         in if length possible_cells = 1 then
              (Inr (), (number_new_determined + 1,
                        put_cell g (possible_cells ! 0) (set_value (cell_at g (possible_cells ! 0)) v)))
            else if length possible_cells = 0 then
              (Inl UnsolvableGridError, (number_new_determined, g))
            else (Inr (), (number_new_determined, g))))"

definition values_to_check :: "SudokuGrid \<Rightarrow> nat \<Rightarrow> int list" where
  "values_to_check g square_code =
     (let certain_values =
            filter (\<lambda>x. x \<in> set (map get_value (get_square_cells g square_code))) [1..9]
      in filter (\<lambda>i. i \<notin> set certain_values) [1..9])"

definition check_square :: "nat \<Rightarrow> int \<times> SudokuGrid \<Rightarrow> (error + unit) \<times> (int \<times> SudokuGrid)" where
  "check_square square_code s =
     for_loop (values_to_check (snd s) square_code)
       (check_value (get_square_positions square_code)) s"

definition check_all_squares :: "int \<times> SudokuGrid \<Rightarrow> (error + unit) \<times> (int \<times> SudokuGrid)" where
  "check_all_squares s = for_loop [0..<9] check_square s"

text \<open>One pass of the \<open>while\<close> loop, from \<open>number_new_determined = 0\<close>.\<close>

definition solve_pass :: "SudokuGrid \<Rightarrow> (error + unit) \<times> (int \<times> SudokuGrid)" where
  "solve_pass g = then_do eliminate_all check_all_squares (0, g)"

text \<open>
  The \<open>while\<close> loop and the final \<open>return self.is_solved()\<close>. Nothing in the source
  bounds the number of passes, so the loop is a partial function.
\<close>

partial_function (option) solve_loop ::
  "int \<Rightarrow> nat \<Rightarrow> SudokuGrid \<Rightarrow> ((error + bool) \<times> SudokuGrid) option" where
  "solve_loop number_new_determined number_iterations g =
     (if number_new_determined \<noteq> 0 then
        (case is_solved g of
           None \<Rightarrow> None
         | Some (Inl e, g1) \<Rightarrow> Some (Inl e, g1)
         | Some (Inr solved, g1) \<Rightarrow>
             if \<not> solved then
               (case solve_pass g1 of
                  (Inl e, (n, g2)) \<Rightarrow> Some (Inl e, g2)
                | (Inr u, (n, g2)) \<Rightarrow> solve_loop n (number_iterations + 1) g2)
             else is_solved g1)
      else is_solved g)"

definition solve :: "SudokuGrid \<Rightarrow> ((error + bool) \<times> SudokuGrid) option" where
  "solve g = solve_loop (- 1) 0 g"

definition clone :: "SudokuGrid \<Rightarrow> SudokuGrid" where
  "clone g =
     fold (\<lambda>i. fold (\<lambda>j cloned. put_cell cloned (i, j) (clone_cell (cell_at g (i, j))))
                    [0..<length (grid g ! i)])
          [0..<length (grid g)]
          (SudokuGrid_init (custom_unknown_cell_symbol g))"

subsection \<open>Auxiliary notions for the properties\<close>

text \<open>
  Positions inside the 9x9 grid, matrices of 9 rows of 9 entries, the invariant that a
  certain cell has its value as only candidate, and two concrete inputs used to instantiate
  the theorems.
\<close>

definition in_grid :: "nat \<times> nat \<Rightarrow> bool" where
  "in_grid p = (fst p < 9 \<and> snd p < 9)"

definition invariant_A :: "SudokuCell \<Rightarrow> bool" where
  "invariant_A c = (get_value c \<noteq> 0 \<longrightarrow> set (cell_possible c) = {get_value c})"

definition is_9x9 :: "'a list list \<Rightarrow> bool" where
  "is_9x9 matrix = (length matrix = 9 \<and> list_all (\<lambda>row. length row = 9) matrix)"

definition narrowed_grid :: SudokuGrid where
  "narrowed_grid =
     put_cell (SudokuGrid_init []) (0, 0)
       \<lparr>cell_value = 0, cell_possible = [4, 7], cell_impossible = [1, 2, 3, 5, 6, 8, 9]\<rparr>"

definition example_matrix :: "int list list" where
  "example_matrix =
     [[5, 3, 0, 0, 7, 0, 0, 0, 0],
      [6, 0, 0, 1, 9, 5, 0, 0, 0],
      [0, 9, 8, 0, 0, 0, 0, 6, 0],
      [8, 0, 0, 0, 6, 0, 0, 0, 3],
      [4, 0, 0, 8, 0, 3, 0, 0, 1],
      [7, 0, 0, 0, 2, 0, 0, 0, 6],
      [0, 6, 0, 0, 0, 0, 2, 8, 0],
      [0, 0, 0, 4, 1, 9, 0, 0, 5],
      [0, 0, 0, 0, 8, 0, 0, 7, 9]]"

definition holders :: "SudokuGrid \<Rightarrow> nat \<Rightarrow> int \<Rightarrow> (nat \<times> nat) list" where
  "holders g sq v = filter (\<lambda>p. is_value_possible (cell_at g p) v) (get_square_positions sq)"


definition looping_matrix :: "int list list" where
  "looping_matrix =
     [[1, 0, 2, 0, 0, 8, 0, 0, 9],
      [3, 4, 5, 0, 0, 0, 0, 0, 0],
      [6, 7, 0, 0, 0, 0, 0, 0, 0],
      [0, 0, 0, 0, 0, 0, 0, 0, 0],
      [0, 0, 0, 0, 0, 0, 0, 0, 0],
      [0, 0, 0, 0, 0, 0, 0, 0, 0],
      [0, 0, 0, 0, 0, 0, 0, 0, 0],
      [0, 0, 0, 0, 0, 0, 0, 0, 0],
      [0, 0, 0, 0, 0, 0, 0, 0, 0]]"

definition looping_start :: SudokuGrid where
  "looping_start = (case create_from_matrix looping_matrix of Inr g \<Rightarrow> clone g)"

definition looping_state :: SudokuGrid where
  "looping_state =
     \<lparr>grid =
       [[\<lparr>cell_value = 1, cell_possible = [1], cell_impossible = [0, 2, 3, 4, 5, 6, 7, 8]\<rparr>,
         \<lparr>cell_value = 7, cell_possible = [7], cell_impossible = [1, 2, 3, 4, 5, 6, 8, 9]\<rparr>,
         \<lparr>cell_value = 2, cell_possible = [2], cell_impossible = [0, 1, 3, 4, 5, 6, 7, 8]\<rparr>,
         \<lparr>cell_value = 0, cell_possible = [3, 4, 5, 6], cell_impossible = [1, 2, 7, 8, 9]\<rparr>,
         \<lparr>cell_value = 0, cell_possible = [3, 4, 5, 6], cell_impossible = [1, 2, 7, 8, 9]\<rparr>,
         \<lparr>cell_value = 8, cell_possible = [8], cell_impossible = [0, 1, 2, 3, 4, 5, 6, 7]\<rparr>,
         \<lparr>cell_value = 0, cell_possible = [3, 4, 5, 6], cell_impossible = [1, 2, 7, 8, 9]\<rparr>,
         \<lparr>cell_value = 0, cell_possible = [3, 4, 5, 6], cell_impossible = [1, 2, 7, 8, 9]\<rparr>,
         \<lparr>cell_value = 9, cell_possible = [9], cell_impossible = [0, 1, 2, 3, 4, 5, 6, 7, 8]\<rparr>],
        [\<lparr>cell_value = 3, cell_possible = [3], cell_impossible = [0, 1, 2, 4, 5, 6, 7, 8]\<rparr>,
         \<lparr>cell_value = 4, cell_possible = [4], cell_impossible = [0, 1, 2, 3, 5, 6, 7, 8]\<rparr>,
         \<lparr>cell_value = 5, cell_possible = [5], cell_impossible = [0, 1, 2, 3, 4, 6, 7, 8]\<rparr>,
         \<lparr>cell_value = 0, cell_possible = [1, 2, 6, 7, 9], cell_impossible = [3, 4, 5, 8]\<rparr>,
         \<lparr>cell_value = 0, cell_possible = [1, 2, 6, 7, 9], cell_impossible = [3, 4, 5, 8]\<rparr>,
         \<lparr>cell_value = 0, cell_possible = [1, 2, 6, 7, 9], cell_impossible = [3, 4, 5, 8]\<rparr>,
         \<lparr>cell_value = 0, cell_possible = [1, 2, 6, 7, 8], cell_impossible = [3, 4, 5, 9]\<rparr>,
         \<lparr>cell_value = 0, cell_possible = [1, 2, 6, 7, 8], cell_impossible = [3, 4, 5, 9]\<rparr>,
         \<lparr>cell_value = 0, cell_possible = [1, 2, 6, 7, 8], cell_impossible = [3, 4, 5, 9]\<rparr>],
        [\<lparr>cell_value = 6, cell_possible = [6], cell_impossible = [0, 1, 2, 3, 4, 5, 7, 8]\<rparr>,
         \<lparr>cell_value = 7, cell_possible = [7], cell_impossible = [0, 1, 2, 3, 4, 5, 6, 8]\<rparr>,
         \<lparr>cell_value = 8, cell_possible = [8, 9], cell_impossible = [1, 2, 3, 4, 5, 6, 7]\<rparr>,
         \<lparr>cell_value = 0, cell_possible = [1, 2, 3, 4, 5], cell_impossible = [6, 7, 8, 9]\<rparr>,
         \<lparr>cell_value = 0, cell_possible = [1, 2, 3, 4, 5], cell_impossible = [6, 7, 8, 9]\<rparr>,
         \<lparr>cell_value = 0, cell_possible = [1, 2, 3, 4, 5], cell_impossible = [6, 7, 8, 9]\<rparr>,
         \<lparr>cell_value = 0, cell_possible = [1, 2, 3, 4, 5, 8], cell_impossible = [6, 7, 9]\<rparr>,
         \<lparr>cell_value = 0, cell_possible = [1, 2, 3, 4, 5, 8], cell_impossible = [6, 7, 9]\<rparr>,
         \<lparr>cell_value = 0, cell_possible = [1, 2, 3, 4, 5, 8], cell_impossible = [6, 7, 9]\<rparr>],
        [\<lparr>cell_value = 0, cell_possible = [2, 4, 5, 7, 8, 9], cell_impossible = [1, 3, 6]\<rparr>,
         \<lparr>cell_value = 0, cell_possible = [1, 2, 3, 5, 6, 8, 9], cell_impossible = [4, 7]\<rparr>,
         \<lparr>cell_value = 0, cell_possible = [1, 3, 4, 6, 7, 8], cell_impossible = [2, 5, 9]\<rparr>,
         \<lparr>cell_value = 0, cell_possible = [1, 2, 3, 4, 5, 6, 7, 8, 9], cell_impossible = []\<rparr>,
         \<lparr>cell_value = 0, cell_possible = [1, 2, 3, 4, 5, 6, 7, 8, 9], cell_impossible = []\<rparr>,
         \<lparr>cell_value = 0, cell_possible = [1, 2, 3, 4, 5, 6, 7, 9], cell_impossible = [8]\<rparr>,
         \<lparr>cell_value = 0, cell_possible = [1, 2, 3, 4, 5, 6, 7, 8, 9], cell_impossible = []\<rparr>,
         \<lparr>cell_value = 0, cell_possible = [1, 2, 3, 4, 5, 6, 7, 8, 9], cell_impossible = []\<rparr>,
         \<lparr>cell_value = 0, cell_possible = [1, 2, 3, 4, 5, 6, 7, 8], cell_impossible = [9]\<rparr>],
        [\<lparr>cell_value = 0, cell_possible = [2, 4, 5, 7, 8, 9], cell_impossible = [1, 3, 6]\<rparr>,
         \<lparr>cell_value = 0, cell_possible = [1, 2, 3, 5, 6, 8, 9], cell_impossible = [4, 7]\<rparr>,
         \<lparr>cell_value = 0, cell_possible = [1, 3, 4, 6, 7, 8], cell_impossible = [2, 5, 9]\<rparr>,
         \<lparr>cell_value = 0, cell_possible = [1, 2, 3, 4, 5, 6, 7, 8, 9], cell_impossible = []\<rparr>,
         \<lparr>cell_value = 0, cell_possible = [1, 2, 3, 4, 5, 6, 7, 8, 9], cell_impossible = []\<rparr>,
         \<lparr>cell_value = 0, cell_possible = [1, 2, 3, 4, 5, 6, 7, 9], cell_impossible = [8]\<rparr>,
         \<lparr>cell_value = 0, cell_possible = [1, 2, 3, 4, 5, 6, 7, 8, 9], cell_impossible = []\<rparr>,
         \<lparr>cell_value = 0, cell_possible = [1, 2, 3, 4, 5, 6, 7, 8, 9], cell_impossible = []\<rparr>,
         \<lparr>cell_value = 0, cell_possible = [1, 2, 3, 4, 5, 6, 7, 8], cell_impossible = [9]\<rparr>],
        [\<lparr>cell_value = 0, cell_possible = [2, 4, 5, 7, 8, 9], cell_impossible = [1, 3, 6]\<rparr>,
         \<lparr>cell_value = 0, cell_possible = [1, 2, 3, 5, 6, 8, 9], cell_impossible = [4, 7]\<rparr>,
         \<lparr>cell_value = 0, cell_possible = [1, 3, 4, 6, 7, 8], cell_impossible = [2, 5, 9]\<rparr>,
         \<lparr>cell_value = 0, cell_possible = [1, 2, 3, 4, 5, 6, 7, 8, 9], cell_impossible = []\<rparr>,
         \<lparr>cell_value = 0, cell_possible = [1, 2, 3, 4, 5, 6, 7, 8, 9], cell_impossible = []\<rparr>,
         \<lparr>cell_value = 0, cell_possible = [1, 2, 3, 4, 5, 6, 7, 9], cell_impossible = [8]\<rparr>,
         \<lparr>cell_value = 0, cell_possible = [1, 2, 3, 4, 5, 6, 7, 8, 9], cell_impossible = []\<rparr>,
         \<lparr>cell_value = 0, cell_possible = [1, 2, 3, 4, 5, 6, 7, 8, 9], cell_impossible = []\<rparr>,
         \<lparr>cell_value = 0, cell_possible = [1, 2, 3, 4, 5, 6, 7, 8], cell_impossible = [9]\<rparr>],
        [\<lparr>cell_value = 0, cell_possible = [2, 4, 5, 7, 8, 9], cell_impossible = [1, 3, 6]\<rparr>,
         \<lparr>cell_value = 0, cell_possible = [1, 2, 3, 5, 6, 8, 9], cell_impossible = [4, 7]\<rparr>,
         \<lparr>cell_value = 0, cell_possible = [1, 3, 4, 6, 7, 8], cell_impossible = [2, 5, 9]\<rparr>,
         \<lparr>cell_value = 0, cell_possible = [1, 2, 3, 4, 5, 6, 7, 8, 9], cell_impossible = []\<rparr>,
         \<lparr>cell_value = 0, cell_possible = [1, 2, 3, 4, 5, 6, 7, 8, 9], cell_impossible = []\<rparr>,
         \<lparr>cell_value = 0, cell_possible = [1, 2, 3, 4, 5, 6, 7, 9], cell_impossible = [8]\<rparr>,
         \<lparr>cell_value = 0, cell_possible = [1, 2, 3, 4, 5, 6, 7, 8, 9], cell_impossible = []\<rparr>,
         \<lparr>cell_value = 0, cell_possible = [1, 2, 3, 4, 5, 6, 7, 8, 9], cell_impossible = []\<rparr>,
         \<lparr>cell_value = 0, cell_possible = [1, 2, 3, 4, 5, 6, 7, 8], cell_impossible = [9]\<rparr>],
        [\<lparr>cell_value = 0, cell_possible = [2, 4, 5, 7, 8, 9], cell_impossible = [1, 3, 6]\<rparr>,
         \<lparr>cell_value = 0, cell_possible = [1, 2, 3, 5, 6, 8, 9], cell_impossible = [4, 7]\<rparr>,
         \<lparr>cell_value = 0, cell_possible = [1, 3, 4, 6, 7, 8], cell_impossible = [2, 5, 9]\<rparr>,
         \<lparr>cell_value = 0, cell_possible = [1, 2, 3, 4, 5, 6, 7, 8, 9], cell_impossible = []\<rparr>,
         \<lparr>cell_value = 0, cell_possible = [1, 2, 3, 4, 5, 6, 7, 8, 9], cell_impossible = []\<rparr>,
         \<lparr>cell_value = 0, cell_possible = [1, 2, 3, 4, 5, 6, 7, 9], cell_impossible = [8]\<rparr>,
         \<lparr>cell_value = 0, cell_possible = [1, 2, 3, 4, 5, 6, 7, 8, 9], cell_impossible = []\<rparr>,
         \<lparr>cell_value = 0, cell_possible = [1, 2, 3, 4, 5, 6, 7, 8, 9], cell_impossible = []\<rparr>,
         \<lparr>cell_value = 0, cell_possible = [1, 2, 3, 4, 5, 6, 7, 8], cell_impossible = [9]\<rparr>],
        [\<lparr>cell_value = 0, cell_possible = [2, 4, 5, 7, 8, 9], cell_impossible = [1, 3, 6]\<rparr>,
         \<lparr>cell_value = 0, cell_possible = [1, 2, 3, 5, 6, 8, 9], cell_impossible = [4, 7]\<rparr>,
         \<lparr>cell_value = 0, cell_possible = [1, 3, 4, 6, 7, 8], cell_impossible = [2, 5, 9]\<rparr>,
         \<lparr>cell_value = 0, cell_possible = [1, 2, 3, 4, 5, 6, 7, 8, 9], cell_impossible = []\<rparr>,
         \<lparr>cell_value = 0, cell_possible = [1, 2, 3, 4, 5, 6, 7, 8, 9], cell_impossible = []\<rparr>,
         \<lparr>cell_value = 0, cell_possible = [1, 2, 3, 4, 5, 6, 7, 9], cell_impossible = [8]\<rparr>,
         \<lparr>cell_value = 0, cell_possible = [1, 2, 3, 4, 5, 6, 7, 8, 9], cell_impossible = []\<rparr>,
         \<lparr>cell_value = 0, cell_possible = [1, 2, 3, 4, 5, 6, 7, 8, 9], cell_impossible = []\<rparr>,
         \<lparr>cell_value = 0, cell_possible = [1, 2, 3, 4, 5, 6, 7, 8], cell_impossible = [9]\<rparr>]],
      used_cell = [[True, True, True, False, False, True, False, False, True],
         [True, True, True, False, False, False, False, False, False],
         [True, True, True, False, False, False, False, False, False],
         [False, False, False, False, False, False, False, False, False],
         [False, False, False, False, False, False, False, False, False],
         [False, False, False, False, False, False, False, False, False],
         [False, False, False, False, False, False, False, False, False],
         [False, False, False, False, False, False, False, False, False],
         [False, False, False, False, False, False, False, False, False]],
      custom_unknown_cell_symbol = []\<rparr>"

definition looping_state' :: SudokuGrid where
  "looping_state' = Grid_set_value looping_state 2 2 9"

definition after_pass :: "SudokuGrid \<Rightarrow> SudokuGrid" where
  "after_pass g = snd (snd (solve_pass g))"

definition triple ::
  "('s \<Rightarrow> bool) \<Rightarrow> ('s \<Rightarrow> (error + unit) \<times> 's) \<Rightarrow> ('s \<Rightarrow> bool) \<Rightarrow> (error \<Rightarrow> 's \<Rightarrow> bool) \<Rightarrow> bool" where
  "triple P c Q E =
     (\<forall>s r s'. P s \<longrightarrow> c s = (r, s') \<longrightarrow> (case r of Inl e \<Rightarrow> E e s' | Inr u \<Rightarrow> Q s'))"

definition sol_at :: "int list list \<Rightarrow> nat \<times> nat \<Rightarrow> int" where
  "sol_at m p = m ! fst p ! snd p"

definition all_positions :: "(nat \<times> nat) list" where
  "all_positions = List.product [0..<9] [0..<9]"

definition each_once :: "int list \<Rightarrow> bool" where
  "each_once xs = list_all (\<lambda>d. count_list xs d = 1) [1..9]"

definition column_values :: "int list list \<Rightarrow> nat \<Rightarrow> int list" where
  "column_values m c = map (\<lambda>r. m ! r ! c) [0..<9]"

definition square_values :: "int list list \<Rightarrow> nat \<Rightarrow> int list" where
  "square_values m sq = map (sol_at m) (get_square_positions sq)"

definition valid_sudoku :: "int list list \<Rightarrow> bool" where
  "valid_sudoku m =
     (is_9x9 m \<and>
      list_all (\<lambda>i. each_once (m ! i) \<and> each_once (column_values m i) \<and>
                     each_once (square_values m i)) [0..<9])"

definition consistent :: "SudokuGrid \<Rightarrow> int list list \<Rightarrow> bool" where
  "consistent g sol =
     list_all (\<lambda>p. (is_value_certain (cell_at g p) \<longrightarrow> get_value (cell_at g p) = sol_at sol p) \<and>
                    is_value_possible (cell_at g p) (sol_at sol p)) all_positions"

definition peers :: "nat \<times> nat \<Rightarrow> nat \<times> nat \<Rightarrow> bool" where
  "peers p q =
     (p \<noteq> q \<and> (fst p = fst q \<or> snd p = snd q \<or>
                 get_square_code (fst p) (snd p) = get_square_code (fst q) (snd q)))"

definition sound_state :: "int list list \<Rightarrow> int \<times> SudokuGrid \<Rightarrow> bool" where
  "sound_state sol s = (wf_grid (snd s) \<and> consistent (snd s) sol)"

definition index_position :: "nat \<Rightarrow> nat \<times> nat" where
  "index_position index = (index div 9, index mod 9)"

definition all_certain :: "SudokuGrid \<Rightarrow> bool" where
  "all_certain g = list_all (\<lambda>p. is_value_certain (cell_at g p)) all_positions"

definition agrees :: "int list list \<Rightarrow> int list list \<Rightarrow> bool" where
  "agrees m sol = list_all (\<lambda>p. sol_at m p \<noteq> 0 \<longrightarrow> sol_at m p = sol_at sol p) all_positions"

definition example_solution :: "int list list" where
  "example_solution =
     [[5, 3, 4, 6, 7, 8, 9, 1, 2],
      [6, 7, 2, 1, 9, 5, 3, 4, 8],
      [1, 9, 8, 3, 4, 2, 5, 6, 7],
      [8, 5, 9, 7, 6, 1, 4, 2, 3],
      [4, 2, 6, 8, 5, 3, 7, 9, 1],
      [7, 1, 3, 9, 2, 4, 8, 5, 6],
      [9, 6, 1, 5, 3, 7, 2, 8, 4],
      [2, 8, 7, 4, 1, 9, 6, 3, 5],
      [3, 4, 5, 2, 8, 6, 1, 7, 9]]"

definition example_start :: SudokuGrid where
  "example_start = (case create_from_matrix example_matrix of Inr g \<Rightarrow> clone g)"

definition fives_matrix :: "int list list" where
  "fives_matrix = replicate 9 (replicate 9 5)"

definition fives_created :: SudokuGrid where
  "fives_created =
     \<lparr>grid = replicate 9 (replicate 9 (set_value (SudokuCell_init 0) 5)),
      used_cell = replicate 9 (replicate 9 False),
      custom_unknown_cell_symbol = []\<rparr>"

declare is_solved_loop.simps [code]
declare solve_loop.simps [code]

section \<open>Properties\<close>

subsection \<open>Cells\<close>

lemmas cell_defs = DEFAULT_VALUE_def get_default_value_def is_default_value_def get_value_def
  set_value_def is_value_possible_def is_value_certain_def

lemma upto_1_9: "[1..9] = [1, 2, 3, 4, 5, 6, 7, 8, 9::int]"
  by code_simp

lemma upto_0_8: "[0..8] = [0, 1, 2, 3, 4, 5, 6, 7, 8::int]"
  by code_simp

lemma set_value_to_impossible_possible:
  "cell_possible (set_value_to_impossible c v) = remove1 v (cell_possible c)"
  by (simp add: set_value_to_impossible_def remove1_idem)

lemma set_value_to_impossible_value:
  "cell_value (set_value_to_impossible c v) = cell_value c"
  by (simp add: set_value_to_impossible_def)

lemma can_value_be_determined_possible:
  "cell_possible (snd (can_value_be_determined c)) = cell_possible c"
  by (simp add: can_value_be_determined_def set_value_def)


lemma can_value_be_determined_cases:
  assumes "can_value_be_determined c = (res, c')"
  shows "cell_possible c' = cell_possible c"
    and "cell_impossible c' = cell_impossible c"
    and "res = Inr True \<longleftrightarrow> \<not> is_value_certain c \<and> length (cell_possible c) = 1"
    and "res = Inl e \<longleftrightarrow> e = UnsolvableGridError \<and> \<not> is_value_certain c \<and> cell_possible c = []"
    and "res = Inr True \<Longrightarrow> cell_possible c = [get_value c']"
    and "res \<noteq> Inr True \<Longrightarrow> c' = c"
  using assms
  by (auto simp: can_value_be_determined_def cell_defs length_Suc_conv split: if_splits)

lemma eliminate_step:
  assumes "can_value_be_determined (set_value_to_impossible u v) = (res, u')"
    and "\<not> is_value_certain u" and "distinct (cell_possible u)"
  shows "set (cell_possible u') = set (cell_possible u) - {v}"
    and "res = Inr True \<longleftrightarrow> length (cell_possible u') = 1"
    and "res = Inr True \<Longrightarrow> cell_possible u' = [get_value u']"
    and "res \<noteq> Inr True \<Longrightarrow> get_value u' = get_value u"
proof -
  let ?w = "set_value_to_impossible u v"
  have unc: "\<not> is_value_certain ?w"
    using assms(2) by (simp add: is_value_certain_def get_value_def set_value_to_impossible_value)
  have poss: "cell_possible u' = remove1 v (cell_possible u)"
    using can_value_be_determined_cases(1)[OF assms(1)]
    by (simp add: set_value_to_impossible_possible)
  show "set (cell_possible u') = set (cell_possible u) - {v}"
    using poss assms(3) by simp
  show "res = Inr True \<longleftrightarrow> length (cell_possible u') = 1"
    using can_value_be_determined_cases(3)[OF assms(1)] unc poss
    by (simp add: set_value_to_impossible_possible)
  show "res = Inr True \<Longrightarrow> cell_possible u' = [get_value u']"
    using can_value_be_determined_cases(5)[OF assms(1)] can_value_be_determined_cases(1)[OF assms(1)]
    by simp
  show "res \<noteq> Inr True \<Longrightarrow> get_value u' = get_value u"
    using can_value_be_determined_cases(6)[OF assms(1)]
    by (simp add: get_value_def set_value_to_impossible_value)
qed

text \<open>
  Claim C5. \<open>eliminate_conflicting_values(self, other)\<close>: when exactly one of the two
  cells is certain, the value of the certain cell is removed from the candidates of the
  uncertain cell, the certain cell is untouched, and the call returns true exactly when
  the candidates of the uncertain cell are then a single digit, which has become the value
  of that cell; when it does not return true the value of the uncertain cell is as before.
  When both or neither of the cells are certain, the call returns false and changes
  nothing. The candidate lists are lists without repetition, as the constructor builds
  them.
\<close>

theorem eliminate_conflicting_values_effect:
  assumes "eliminate_conflicting_values self other = (res, self', other')"
    and "distinct (cell_possible self)" and "distinct (cell_possible other)"
  shows "(is_value_certain self \<and> \<not> is_value_certain other \<longrightarrow>
            self' = self \<and>
            set (cell_possible other') = set (cell_possible other) - {get_value self} \<and>
            (res = Inr True \<longleftrightarrow> length (cell_possible other') = 1) \<and>
            (res = Inr True \<longrightarrow> cell_possible other' = [get_value other']) \<and>
            (res \<noteq> Inr True \<longrightarrow> get_value other' = get_value other)) \<and>
         (\<not> is_value_certain self \<and> is_value_certain other \<longrightarrow>
            other' = other \<and>
            set (cell_possible self') = set (cell_possible self) - {get_value other} \<and>
            (res = Inr True \<longleftrightarrow> length (cell_possible self') = 1) \<and>
            (res = Inr True \<longrightarrow> cell_possible self' = [get_value self']) \<and>
            (res \<noteq> Inr True \<longrightarrow> get_value self' = get_value self)) \<and>
         ((is_value_certain self \<longleftrightarrow> is_value_certain other) \<longrightarrow>
            res = Inr False \<and> self' = self \<and> other' = other)"
proof (intro conjI impI)
  assume c: "is_value_certain self \<and> \<not> is_value_certain other"
  then have e: "can_value_be_determined (set_value_to_impossible other (get_value self)) = (res, other')"
    and s: "self' = self"
    using assms(1) by (auto simp: eliminate_conflicting_values_def split: prod.splits)
  show "self' = self" by (rule s)
  show "set (cell_possible other') = set (cell_possible other) - {get_value self}"
    using eliminate_step(1)[OF e] c assms(3) by blast
  show "(res = Inr True) = (length (cell_possible other') = 1)"
    using eliminate_step(2)[OF e] c assms(3) by blast
  show "res = Inr True \<Longrightarrow> cell_possible other' = [get_value other']"
    using eliminate_step(3)[OF e] c assms(3) by blast
  show "res \<noteq> Inr True \<Longrightarrow> get_value other' = get_value other"
    using eliminate_step(4)[OF e] c assms(3) by blast
next
  assume c: "\<not> is_value_certain self \<and> is_value_certain other"
  then have e: "can_value_be_determined (set_value_to_impossible self (get_value other)) = (res, self')"
    and s: "other' = other"
    using assms(1) by (auto simp: eliminate_conflicting_values_def split: prod.splits)
  show "other' = other" by (rule s)
  show "set (cell_possible self') = set (cell_possible self) - {get_value other}"
    using eliminate_step(1)[OF e] c assms(2) by blast
  show "(res = Inr True) = (length (cell_possible self') = 1)"
    using eliminate_step(2)[OF e] c assms(2) by blast
  show "res = Inr True \<Longrightarrow> cell_possible self' = [get_value self']"
    using eliminate_step(3)[OF e] c assms(2) by blast
  show "res \<noteq> Inr True \<Longrightarrow> get_value self' = get_value self"
    using eliminate_step(4)[OF e] c assms(2) by blast
next
  assume c: "is_value_certain self = is_value_certain other"
  then show "res = Inr False" "self' = self" "other' = other"
    using assms(1) by (auto simp: eliminate_conflicting_values_def)
qed

theorem eliminate_conflicting_values_effect_witness:
  "eliminate_conflicting_values
      \<lparr>cell_value = 0, cell_possible = [4, 7], cell_impossible = [1, 2, 3, 5, 6, 8, 9]\<rparr>
      (SudokuCell_init 7) =
     (Inr True,
      \<lparr>cell_value = 4, cell_possible = [4], cell_impossible = [1, 2, 3, 5, 6, 7, 8, 9]\<rparr>,
      SudokuCell_init 7) \<and>
   set (cell_possible \<lparr>cell_value = 4, cell_possible = [4], cell_impossible = [1, 2, 3, 5, 6, 7, 8, 9]\<rparr>)
     = set [4, 7] - {get_value (SudokuCell_init 7)}"
proof -
  let ?u = "\<lparr>cell_value = 0, cell_possible = [4, 7], cell_impossible = [1, 2, 3, 5, 6, 8, 9]\<rparr>"
  let ?u' = "\<lparr>cell_value = 4, cell_possible = [4], cell_impossible = [1, 2, 3, 5, 6, 7, 8, 9]\<rparr>"
  have e: "eliminate_conflicting_values ?u (SudokuCell_init 7) = (Inr True, ?u', SudokuCell_init 7)"
    by (simp add: eliminate_conflicting_values_def can_value_be_determined_def
        set_value_to_impossible_def SudokuCell_init_def cell_defs)
  have d1: "distinct (cell_possible ?u)" by simp
  have d2: "distinct (cell_possible (SudokuCell_init 7))"
    by (simp add: SudokuCell_init_def cell_defs)
  have c: "\<not> is_value_certain ?u \<and> is_value_certain (SudokuCell_init 7)"
    by (simp add: SudokuCell_init_def cell_defs)
  show ?thesis
    using eliminate_conflicting_values_effect[OF e d1 d2] c e by simp
qed

text \<open>
  Claim C7. A call of \<open>eliminate_conflicting_values\<close> never adds a candidate to either
  cell, whatever the outcome, and a cell that is certain before the call is the same
  after it: value, candidates and all.
\<close>

theorem eliminate_conflicting_values_monotone:
  assumes "eliminate_conflicting_values self other = (res, self', other')"
  shows "set (cell_possible self') \<subseteq> set (cell_possible self) \<and>
         set (cell_possible other') \<subseteq> set (cell_possible other) \<and>
         (is_value_certain self \<longrightarrow> self' = self) \<and>
         (is_value_certain other \<longrightarrow> other' = other)"
proof -
  have sub: "set (cell_possible (snd (can_value_be_determined (set_value_to_impossible u v))))
               \<subseteq> set (cell_possible u)" for u v
    by (simp add: can_value_be_determined_possible set_value_to_impossible_possible set_remove1_subset)
  show ?thesis
    using assms sub[of other "get_value self"] sub[of self "get_value other"]
    by (auto simp: eliminate_conflicting_values_def Let_def split: if_splits prod.splits)
qed

theorem eliminate_conflicting_values_monotone_witness:
  "set (cell_possible (fst (snd (eliminate_conflicting_values (SudokuCell_init 0) (SudokuCell_init 5)))))
     \<subseteq> set (cell_possible (SudokuCell_init 0)) \<and>
   is_value_certain (SudokuCell_init 5) \<and>
   snd (snd (eliminate_conflicting_values (SudokuCell_init 0) (SudokuCell_init 5))) = SudokuCell_init 5 \<and>
   cell_possible (fst (snd (eliminate_conflicting_values (SudokuCell_init 0) (SudokuCell_init 5))))
     = [1, 2, 3, 4, 6, 7, 8, 9]"
proof -
  have c: "is_value_certain (SudokuCell_init 5)"
    by (simp add: SudokuCell_init_def cell_defs)
  have p: "cell_possible (fst (snd (eliminate_conflicting_values (SudokuCell_init 0) (SudokuCell_init 5))))
     = [1, 2, 3, 4, 6, 7, 8, 9]"
    by (simp add: eliminate_conflicting_values_def can_value_be_determined_def
        set_value_to_impossible_def SudokuCell_init_def cell_defs upto_1_9)
  show ?thesis
    using eliminate_conflicting_values_monotone[of "SudokuCell_init 0" "SudokuCell_init 5"
        "fst (eliminate_conflicting_values (SudokuCell_init 0) (SudokuCell_init 5))"
        "fst (snd (eliminate_conflicting_values (SudokuCell_init 0) (SudokuCell_init 5)))"
        "snd (snd (eliminate_conflicting_values (SudokuCell_init 0) (SudokuCell_init 5)))"]
      c p by simp
qed

subsection \<open>Grids\<close>

lemma fold_update_row:
  assumes "i < length M"
  shows "length (fold (\<lambda>j M. M[i := (M ! i)[j := f j]]) js M) = length M \<and>
         (\<forall>i'. length (fold (\<lambda>j M. M[i := (M ! i)[j := f j]]) js M ! i') = length (M ! i')) \<and>
         (\<forall>i' j'. i' < length M \<longrightarrow> j' < length (M ! i') \<longrightarrow>
            fold (\<lambda>j M. M[i := (M ! i)[j := f j]]) js M ! i' ! j' =
              (if i' = i \<and> j' \<in> set js then f j' else M ! i' ! j'))"
  using assms
proof (induction js arbitrary: M)
  case Nil
  then show ?case by simp
next
  case (Cons j js)
  let ?M = "M[i := (M ! i)[j := f j]]"
  have len: "i < length ?M" using Cons.prems by simp
  have l2: "length (?M ! i') = length (M ! i')" for i'
    using Cons.prems by (cases "i' = i") (simp_all add: nth_list_update)
  have n2: "i' < length M \<Longrightarrow> j' < length (M ! i') \<Longrightarrow>
      ?M ! i' ! j' = (if i' = i \<and> j' = j then f j else M ! i' ! j')" for i' j'
    using Cons.prems by (cases "i' = i") (auto simp: nth_list_update)
  show ?case
  proof (intro conjI allI impI)
    show "length (fold (\<lambda>j M. M[i := (M ! i)[j := f j]]) (j # js) M) = length M"
      using Cons.IH[OF len] by simp
    show "length (fold (\<lambda>j M. M[i := (M ! i)[j := f j]]) (j # js) M ! i') = length (M ! i')" for i'
      using Cons.IH[OF len] l2 by simp
    fix i' j' assume b: "i' < length M" "j' < length (M ! i')"
    then have "fold (\<lambda>j M. M[i := (M ! i)[j := f j]]) js ?M ! i' ! j' =
        (if i' = i \<and> j' \<in> set js then f j' else ?M ! i' ! j')"
      using Cons.IH[OF len] l2 by simp
    then show "fold (\<lambda>j M. M[i := (M ! i)[j := f j]]) (j # js) M ! i' ! j' =
        (if i' = i \<and> j' \<in> set (j # js) then f j' else M ! i' ! j')"
      using n2[OF b] by auto
  qed
qed

lemma fold_update_rows:
  assumes "\<forall>i\<in>set is. i < length M"
  shows "length (fold (\<lambda>i. fold (\<lambda>j M. M[i := (M ! i)[j := f i j]]) js) is M) = length M \<and>
         (\<forall>i'. length (fold (\<lambda>i. fold (\<lambda>j M. M[i := (M ! i)[j := f i j]]) js) is M ! i') = length (M ! i')) \<and>
         (\<forall>i' j'. i' < length M \<longrightarrow> j' < length (M ! i') \<longrightarrow>
            fold (\<lambda>i. fold (\<lambda>j M. M[i := (M ! i)[j := f i j]]) js) is M ! i' ! j' =
              (if i' \<in> set is \<and> j' \<in> set js then f i' j' else M ! i' ! j'))"
  using assms
proof (induction "is" arbitrary: M)
  case Nil
  then show ?case by simp
next
  case (Cons i "is")
  let ?M = "fold (\<lambda>j M. M[i := (M ! i)[j := f i j]]) js M"
  have i: "i < length M" using Cons.prems by simp
  note r = fold_update_row[OF i, of "f i" js]
  have len: "\<forall>i\<in>set is. i < length ?M" using Cons.prems r by simp
  show ?case
    using Cons.IH[OF len] r by simp
qed

lemma get_as_matrix_wf:
  assumes "wf_grid g"
  shows "get_as_matrix g = map (map get_value) (grid g)"
proof (rule nth_equalityI)
  let ?f = "\<lambda>i j. get_value (cell_at g (i, j))"
  let ?Z = "replicate 9 (replicate 9 (- 1 :: int))"
  have l0: "length (grid g ! 0) = 9" and l: "length (grid g) = 9"
    and lr: "\<And>i. i < 9 \<Longrightarrow> length (grid g ! i) = 9"
    using assms by (auto simp: wf_grid_def list_all_length)
  have a: "\<forall>i\<in>set [0..<9]. i < length ?Z" by simp
  note r = fold_update_rows[OF a, of ?f "[0..<9]"]
  have gm: "get_as_matrix g = fold (\<lambda>i. fold (\<lambda>j M. M[i := (M ! i)[j := ?f i j]]) [0..<9]) [0..<9] ?Z"
    by (simp add: get_as_matrix_def l0 l)
  show "length (get_as_matrix g) = length (map (map get_value) (grid g))"
    using r l gm by simp
  fix i assume "i < length (get_as_matrix g)"
  then have i: "i < 9" using r gm by simp
  show "get_as_matrix g ! i = map (map get_value) (grid g) ! i"
  proof (rule nth_equalityI)
    show "length (get_as_matrix g ! i) = length (map (map get_value) (grid g) ! i)"
      using r gm i l lr by simp
    fix j assume "j < length (get_as_matrix g ! i)"
    then have j: "j < 9" using r gm i by simp
    show "get_as_matrix g ! i ! j = map (map get_value) (grid g) ! i ! j"
      using r gm i j l lr by (simp add: cell_at_def)
  qed
qed

lemma wf_grid_nth:
  "wf_grid g \<Longrightarrow> length (grid g) = 9"
  "wf_grid g \<Longrightarrow> i < 9 \<Longrightarrow> length (grid g ! i) = 9"
  "wf_grid g \<Longrightarrow> length (used_cell g) = 9"
  "wf_grid g \<Longrightarrow> i < 9 \<Longrightarrow> length (used_cell g ! i) = 9"
  by (auto simp: wf_grid_def list_all_length)

lemma wf_gridI:
  assumes "length (grid g) = 9" "\<And>i. i < 9 \<Longrightarrow> length (grid g ! i) = 9"
    "length (used_cell g) = 9" "\<And>i. i < 9 \<Longrightarrow> length (used_cell g ! i) = 9"
  shows "wf_grid g"
  using assms by (auto simp: wf_grid_def list_all_length)

lemma nth_list_update_any: "xs[i := x] ! i = (if i < length xs then x else xs ! i)"
  by (simp add: list_update_beyond)

lemma wf_grid_put_cell [simp]:
  assumes "wf_grid g"
  shows "wf_grid (put_cell g p c)"
proof (rule wf_gridI)
  show "length (grid (put_cell g p c)) = 9"
    using assms by (simp add: put_cell_def wf_grid_nth)
  show "length (grid (put_cell g p c) ! i) = 9" if "i < 9" for i
    using assms that by (cases "i = fst p") (simp_all add: put_cell_def wf_grid_nth)
  show "length (used_cell (put_cell g p c)) = 9"
    using assms by (simp add: put_cell_def wf_grid_nth)
  show "length (used_cell (put_cell g p c) ! i) = 9" if "i < 9" for i
    using assms that by (simp add: put_cell_def wf_grid_nth)
qed

lemma cell_at_put_cell:
  assumes "wf_grid g" "in_grid p"
  shows "cell_at (put_cell g p c) q = (if q = p then c else cell_at g q)"
proof (cases "q = p")
  case True
  then show ?thesis
    using assms by (simp add: cell_at_def put_cell_def in_grid_def wf_grid_nth)
next
  case False
  then show ?thesis
    by (cases "fst q = fst p")
      (auto simp: cell_at_def put_cell_def prod_eq_iff nth_list_update_any simp del: nth_list_update_eq)
qed

lemma put_cell_other_fields [simp]:
  "used_cell (put_cell g p c) = used_cell g"
  "custom_unknown_cell_symbol (put_cell g p c) = custom_unknown_cell_symbol g"
  by (simp_all add: put_cell_def)

lemma wf_grid_init [simp]: "wf_grid (SudokuGrid_init s)"
  by (simp add: wf_grid_def SudokuGrid_init_def list_all_length)

lemma cell_at_init: "in_grid p \<Longrightarrow> cell_at (SudokuGrid_init s) p = SudokuCell_init DEFAULT_VALUE"
  by (simp add: cell_at_def SudokuGrid_init_def in_grid_def)

lemma create_from_matrix_row_spec:
  assumes "wf_grid g" "i < 9" "length (matrix ! i) = 9" "\<forall>j\<in>set js. j < 9"
  shows "\<exists>g'. create_from_matrix_row matrix i js g = Inr g' \<and> wf_grid g' \<and>
           used_cell g' = used_cell g \<and>
           custom_unknown_cell_symbol g' = custom_unknown_cell_symbol g \<and>
           (\<forall>p. cell_at g' p = (if fst p = i \<and> snd p \<in> set js
                                then set_value (cell_at g p) (matrix ! i ! snd p)
                                else cell_at g p))"
  using assms
proof (induction js arbitrary: g)
  case Nil
  then show ?case by simp
next
  case (Cons j js)
  let ?g1 = "Grid_set_value g i j (matrix ! i ! j)"
  have j: "j < 9" using Cons.prems by simp
  have wf1: "wf_grid ?g1" using Cons.prems by (simp add: Grid_set_value_def)
  have c1: "cell_at ?g1 p = (if p = (i, j) then set_value (cell_at g p) (matrix ! i ! j) else cell_at g p)" for p
    using Cons.prems j by (simp add: Grid_set_value_def cell_at_put_cell in_grid_def)
  from Cons.IH[OF wf1 Cons.prems(2,3)] Cons.prems(4)
  obtain g' where g': "create_from_matrix_row matrix i js ?g1 = Inr g'" "wf_grid g'"
    "used_cell g' = used_cell ?g1" "custom_unknown_cell_symbol g' = custom_unknown_cell_symbol ?g1"
    "\<forall>p. cell_at g' p = (if fst p = i \<and> snd p \<in> set js
                                then set_value (cell_at ?g1 p) (matrix ! i ! snd p)
                                else cell_at ?g1 p)"
    by auto
  have "create_from_matrix_row matrix i (j # js) g = Inr g'"
    using g'(1) Cons.prems j by (simp add: wf_grid_nth)
  moreover have "\<forall>p. cell_at g' p = (if fst p = i \<and> snd p \<in> set (j # js)
                                then set_value (cell_at g p) (matrix ! i ! snd p)
                                else cell_at g p)"
    using g'(5) c1 by (auto simp: set_value_def prod_eq_iff)
  ultimately show ?case
    using g'(2,3,4) by (simp add: Grid_set_value_def)
qed

lemma create_from_matrix_rows_spec:
  assumes "wf_grid g" "\<forall>i\<in>set is. i < 9 \<and> length (matrix ! i) = 9" "length (matrix ! 0) = 9"
  shows "\<exists>g'. create_from_matrix_rows matrix is g = Inr g' \<and> wf_grid g' \<and>
           used_cell g' = used_cell g \<and>
           custom_unknown_cell_symbol g' = custom_unknown_cell_symbol g \<and>
           (\<forall>p. in_grid p \<longrightarrow> cell_at g' p = (if fst p \<in> set is
                                then set_value (cell_at g p) (matrix ! fst p ! snd p)
                                else cell_at g p))"
  using assms
proof (induction "is" arbitrary: g)
  case Nil
  then show ?case by simp
next
  case (Cons i "is")
  have i: "i < 9" "length (matrix ! i) = 9" using Cons.prems by simp_all
  have js: "\<forall>j\<in>set [0..<9]. j < 9" by simp
  from create_from_matrix_row_spec[OF Cons.prems(1) i js]
  obtain g1 where g1: "create_from_matrix_row matrix i [0..<9] g = Inr g1" "wf_grid g1"
    "used_cell g1 = used_cell g" "custom_unknown_cell_symbol g1 = custom_unknown_cell_symbol g"
    "\<forall>p. cell_at g1 p = (if fst p = i \<and> snd p \<in> set [0..<9]
                                then set_value (cell_at g p) (matrix ! i ! snd p)
                                else cell_at g p)"
    by blast
  have r: "\<forall>i\<in>set is. i < 9 \<and> length (matrix ! i) = 9" using Cons.prems by simp
  from Cons.IH[OF g1(2) r Cons.prems(3)]
  obtain g' where g': "create_from_matrix_rows matrix is g1 = Inr g'" "wf_grid g'"
    "used_cell g' = used_cell g1" "custom_unknown_cell_symbol g' = custom_unknown_cell_symbol g1"
    "\<forall>p. in_grid p \<longrightarrow> cell_at g' p = (if fst p \<in> set is
                                then set_value (cell_at g1 p) (matrix ! fst p ! snd p)
                                else cell_at g1 p)"
    by blast
  have "create_from_matrix_rows matrix (i # is) g = Inr g'"
    using g1(1) g'(1) Cons.prems(3) by simp
  moreover have "\<forall>p. in_grid p \<longrightarrow> cell_at g' p = (if fst p \<in> set (i # is)
                                then set_value (cell_at g p) (matrix ! fst p ! snd p)
                                else cell_at g p)"
    using g'(5) g1(5) by (auto simp: set_value_def in_grid_def)
  ultimately show ?case
    using g'(2,3,4) g1(3,4) by simp
qed

lemma create_from_matrix_spec:
  assumes "is_9x9 matrix"
  shows "\<exists>g. create_from_matrix matrix = Inr g \<and> wf_grid g \<and>
           used_cell g = replicate 9 (replicate 9 False) \<and>
           custom_unknown_cell_symbol g = [] \<and>
           (\<forall>p. in_grid p \<longrightarrow>
              cell_at g p = set_value (SudokuCell_init DEFAULT_VALUE) (matrix ! fst p ! snd p))"
proof -
  have l: "length matrix = 9" and r: "\<And>i. i < 9 \<Longrightarrow> length (matrix ! i) = 9"
    using assms by (auto simp: is_9x9_def list_all_length)
  have a: "\<forall>i\<in>set [0..<9]. i < 9 \<and> length (matrix ! i) = 9" using r by simp
  from create_from_matrix_rows_spec[OF wf_grid_init a r[of 0], of "[]"]
  obtain g where g: "create_from_matrix_rows matrix [0..<9] (SudokuGrid_init []) = Inr g"
    "wf_grid g" "used_cell g = used_cell (SudokuGrid_init [])"
    "custom_unknown_cell_symbol g = custom_unknown_cell_symbol (SudokuGrid_init [])"
    "\<forall>p. in_grid p \<longrightarrow> cell_at g p = (if fst p \<in> set [0..<9]
                                then set_value (cell_at (SudokuGrid_init []) p) (matrix ! fst p ! snd p)
                                else cell_at (SudokuGrid_init []) p)"
    by auto
  have "\<forall>p. in_grid p \<longrightarrow>
              cell_at g p = set_value (SudokuCell_init DEFAULT_VALUE) (matrix ! fst p ! snd p)"
    using g(5) by (simp add: cell_at_init) (simp add: in_grid_def)
  then show ?thesis
    using g(1-4) by (simp add: create_from_matrix_def l SudokuGrid_init_def)
qed

lemma matrix_eqI:
  assumes "is_9x9 a" "is_9x9 b" "\<And>i j. i < 9 \<Longrightarrow> j < 9 \<Longrightarrow> a ! i ! j = b ! i ! j"
  shows "a = b"
proof (rule nth_equalityI)
  show "length a = length b" using assms by (simp add: is_9x9_def)
  fix i assume "i < length a"
  then have i: "i < 9" using assms by (simp add: is_9x9_def)
  show "a ! i = b ! i"
    using assms i by (intro nth_equalityI) (auto simp: is_9x9_def list_all_length)
qed

lemma is_9x9_grid: "wf_grid g \<Longrightarrow> is_9x9 (grid g)"
  by (simp add: wf_grid_def is_9x9_def)

lemma get_as_matrix_nth:
  "wf_grid g \<Longrightarrow> i < 9 \<Longrightarrow> j < 9 \<Longrightarrow> get_as_matrix g ! i ! j = get_value (cell_at g (i, j))"
  by (simp add: get_as_matrix_wf cell_at_def wf_grid_nth)

lemma is_9x9_get_as_matrix: "wf_grid g \<Longrightarrow> is_9x9 (get_as_matrix g)"
  by (simp add: get_as_matrix_wf is_9x9_def wf_grid_def list_all_length)

text \<open>
  Claim C10. For every matrix of 9 rows of 9 integers, \<open>create_from_matrix\<close> returns a
  grid (it raises no index error) and \<open>get_as_matrix\<close> of that grid is the matrix.
\<close>

theorem create_from_matrix_get_as_matrix:
  assumes "is_9x9 matrix"
  shows "\<exists>g. create_from_matrix matrix = Inr g \<and> get_as_matrix g = matrix"
proof -
  from create_from_matrix_spec[OF assms]
  obtain g where g: "create_from_matrix matrix = Inr g" "wf_grid g"
    "\<forall>p. in_grid p \<longrightarrow>
        cell_at g p = set_value (SudokuCell_init DEFAULT_VALUE) (matrix ! fst p ! snd p)"
    by blast
  have "get_as_matrix g = matrix"
  proof (rule matrix_eqI)
    show "is_9x9 (get_as_matrix g)" using g(2) by (rule is_9x9_get_as_matrix)
    show "is_9x9 matrix" by (rule assms)
    fix i j :: nat assume "i < 9" "j < 9"
    then show "get_as_matrix g ! i ! j = matrix ! i ! j"
      using g(2,3) by (simp add: get_as_matrix_nth in_grid_def get_value_def set_value_def)
  qed
  then show ?thesis using g(1) by blast
qed

theorem create_from_matrix_get_as_matrix_witness:
  "is_9x9 example_matrix \<and>
   (\<exists>g. create_from_matrix example_matrix = Inr g \<and> get_as_matrix g = example_matrix)"
proof -
  have h: "is_9x9 example_matrix"
    by (simp add: is_9x9_def example_matrix_def)
  show ?thesis
    using create_from_matrix_get_as_matrix[OF h] h by simp
qed

lemma fold_put_cell_row:
  "fold (\<lambda>j cl. put_cell cl (i, j) (F j)) js cl =
     cl\<lparr>grid := fold (\<lambda>j M. M[i := (M ! i)[j := F j]]) js (grid cl)\<rparr>"
  by (induction js arbitrary: cl) (simp_all add: put_cell_def)

lemma fold_put_cell_rows:
  "fold (\<lambda>i. fold (\<lambda>j cl. put_cell cl (i, j) (F i j)) js) is cl =
     cl\<lparr>grid := fold (\<lambda>i. fold (\<lambda>j M. M[i := (M ! i)[j := F i j]]) js) is (grid cl)\<rparr>"
  by (induction "is" arbitrary: cl) (simp_all add: fold_put_cell_row)

lemma clone_spec:
  assumes "wf_grid g"
  shows "wf_grid (clone g)"
    and "used_cell (clone g) = replicate 9 (replicate 9 False)"
    and "custom_unknown_cell_symbol (clone g) = custom_unknown_cell_symbol g"
    and "in_grid p \<Longrightarrow> cell_at (clone g) p = clone_cell (cell_at g p)"
proof -
  let ?F = "\<lambda>i j. clone_cell (cell_at g (i, j))"
  let ?Z = "replicate 9 (replicate 9 (SudokuCell_init DEFAULT_VALUE))"
  let ?M = "fold (\<lambda>i. fold (\<lambda>j M. M[i := (M ! i)[j := ?F i j]]) [0..<9]) [0..<9] ?Z"
  have "clone g = fold (\<lambda>i. fold (\<lambda>j cloned. put_cell cloned (i, j) (?F i j)) [0..<9])
            [0..<9] (SudokuGrid_init (custom_unknown_cell_symbol g))"
    unfolding clone_def using assms
    by (intro fold_cong) (simp_all add: wf_grid_nth)
  then have c: "clone g = (SudokuGrid_init (custom_unknown_cell_symbol g))\<lparr>grid := ?M\<rparr>"
    by (simp add: fold_put_cell_rows SudokuGrid_init_def)
  have a: "\<forall>i\<in>set [0..<9]. i < length ?Z" by simp
  note r = fold_update_rows[OF a, of ?F "[0..<9]"]
  show "wf_grid (clone g)"
    using r by (intro wf_gridI) (simp_all add: c SudokuGrid_init_def)
  show "used_cell (clone g) = replicate 9 (replicate 9 False)"
    by (simp add: c SudokuGrid_init_def)
  show "custom_unknown_cell_symbol (clone g) = custom_unknown_cell_symbol g"
    by (simp add: c SudokuGrid_init_def)
  show "cell_at (clone g) p = clone_cell (cell_at g p)" if "in_grid p"
    using r that by (simp add: c cell_at_def in_grid_def)
qed

text \<open>
  Claim C8. \<open>clone\<close> of a grid gives a grid in which every cell has the value it has in
  the original, every cell of value 0 has all nine candidates again, whatever candidates
  it had, every certain cell has its value as only candidate, and no cell is flagged as
  used. The clone is built from fresh cells and the original is not touched, which in
  this model of values is the fact that \<open>clone\<close> is a function of the original.
\<close>

theorem clone_reseeds:
  assumes "wf_grid g"
  shows "wf_grid (clone g) \<and>
         (\<forall>p. in_grid p \<longrightarrow>
            get_value (cell_at (clone g) p) = get_value (cell_at g p) \<and>
            (get_value (cell_at g p) = 0 \<longrightarrow>
               cell_possible (cell_at (clone g) p) = [1, 2, 3, 4, 5, 6, 7, 8, 9]) \<and>
            (get_value (cell_at g p) \<noteq> 0 \<longrightarrow>
               cell_possible (cell_at (clone g) p) = [get_value (cell_at g p)])) \<and>
         (\<forall>row < 9. \<forall>column < 9. \<not> used_cell (clone g) ! row ! column)"
  using clone_spec[OF assms]
  by (simp add: clone_cell_def SudokuCell_init_def cell_defs upto_1_9)

theorem clone_reseeds_witness:
  "wf_grid narrowed_grid \<and> in_grid (0, 0) \<and>
   get_value (cell_at narrowed_grid (0, 0)) = 0 \<and>
   cell_possible (cell_at narrowed_grid (0, 0)) = [4, 7] \<and>
   cell_possible (cell_at (clone narrowed_grid) (0, 0)) = [1, 2, 3, 4, 5, 6, 7, 8, 9] \<and>
   \<not> used_cell (clone narrowed_grid) ! 0 ! 0"
proof -
  have w: "wf_grid narrowed_grid"
    by (simp add: narrowed_grid_def)
  have i: "in_grid (0, 0)" by (simp add: in_grid_def)
  have c: "cell_at narrowed_grid (0, 0) =
      \<lparr>cell_value = 0, cell_possible = [4, 7], cell_impossible = [1, 2, 3, 5, 6, 8, 9]\<rparr>"
    by (simp add: narrowed_grid_def cell_at_put_cell i)
  show ?thesis
    using clone_reseeds[OF w] w i c by (simp add: get_value_def)
qed

lemma less_9_cases: "(n::nat) < 9 \<Longrightarrow> n \<in> {0, 1, 2, 3, 4, 5, 6, 7, 8}"
  by auto

lemma get_square_positions_values:
  "get_square_positions 0 = [(0,0),(0,1),(0,2),(1,0),(1,1),(1,2),(2,0),(2,1),(2,2)]"
  "get_square_positions (Suc 0) = [(0,3),(0,4),(0,5),(1,3),(1,4),(1,5),(2,3),(2,4),(2,5)]"
  "get_square_positions 1 = [(0,3),(0,4),(0,5),(1,3),(1,4),(1,5),(2,3),(2,4),(2,5)]"
  "get_square_positions 2 = [(0,6),(0,7),(0,8),(1,6),(1,7),(1,8),(2,6),(2,7),(2,8)]"
  "get_square_positions 3 = [(3,0),(3,1),(3,2),(4,0),(4,1),(4,2),(5,0),(5,1),(5,2)]"
  "get_square_positions 4 = [(3,3),(3,4),(3,5),(4,3),(4,4),(4,5),(5,3),(5,4),(5,5)]"
  "get_square_positions 5 = [(3,6),(3,7),(3,8),(4,6),(4,7),(4,8),(5,6),(5,7),(5,8)]"
  "get_square_positions 6 = [(6,0),(6,1),(6,2),(7,0),(7,1),(7,2),(8,0),(8,1),(8,2)]"
  "get_square_positions 7 = [(6,3),(6,4),(6,5),(7,3),(7,4),(7,5),(8,3),(8,4),(8,5)]"
  "get_square_positions 8 = [(6,6),(6,7),(6,8),(7,6),(7,7),(7,8),(8,6),(8,7),(8,8)]"
  by code_simp+

lemma band_div: "n < 9 \<Longrightarrow> (if n \<le> 2 then 0 else if n \<le> 5 then 1 else 2) = n div 3"
  for n :: nat
  by (auto; presburger)

lemma get_square_code_div:
  "row < 9 \<Longrightarrow> column < 9 \<Longrightarrow> get_square_code row column = (row div 3) * 3 + column div 3"
  unfolding get_square_code_def Let_def
  by (simp only: band_div)

lemma get_square_code_less: "row < 9 \<Longrightarrow> column < 9 \<Longrightarrow> get_square_code row column < 9"
  unfolding get_square_code_def Let_def by auto

lemma in_square_bounds:
  "(row, column) \<in> set (get_square_positions sq) \<longleftrightarrow>
     (sq div 3) * 3 \<le> row \<and> row < (sq div 3 + 1) * 3 \<and>
     (sq mod 3) * 3 \<le> column \<and> column < (sq mod 3 + 1) * 3"
proof -
  have "(sq - sq mod 3) div 3 = sq div 3" by presburger
  then show ?thesis
    unfolding get_square_positions_def Let_def by (auto simp: image_iff)
qed

lemma div3_bounds: "n div 3 * 3 \<le> n \<and> n < (n div 3 + 1) * 3" for n :: nat
  by presburger

lemma in_square_iff:
  assumes "sq < 9"
  shows "(row, column) \<in> set (get_square_positions sq) \<longleftrightarrow>
         row < 9 \<and> column < 9 \<and> get_square_code row column = sq"
proof
  assume "(row, column) \<in> set (get_square_positions sq)"
  then have b: "(sq div 3) * 3 \<le> row" "row < (sq div 3 + 1) * 3"
     "(sq mod 3) * 3 \<le> column" "column < (sq mod 3 + 1) * 3"
    by (simp_all add: in_square_bounds)
  have "sq div 3 < 3" using assms by (intro less_mult_imp_div_less) simp
  then have r: "row < 9" using b(2) by simp
  have "sq mod 3 < 3" by simp
  then have c: "column < 9" using b(4) by simp
  have "row div 3 = sq div 3"
    using b(1,2) by (intro div_nat_eqI) (simp_all add: mult.commute)
  moreover have "column div 3 = sq mod 3"
    using b(3,4) by (intro div_nat_eqI) (simp_all add: mult.commute)
  ultimately have "get_square_code row column = sq"
    using r c by (simp add: get_square_code_div)
  then show "row < 9 \<and> column < 9 \<and> get_square_code row column = sq"
    using r c by simp
next
  assume a: "row < 9 \<and> column < 9 \<and> get_square_code row column = sq"
  then have sq: "sq = (row div 3) * 3 + column div 3"
    using get_square_code_div[of row column] by simp
  have "column div 3 < 3" using a by (intro less_mult_imp_div_less) simp
  then have "sq div 3 = row div 3" "sq mod 3 = column div 3"
    unfolding sq by simp_all
  then show "(row, column) \<in> set (get_square_positions sq)"
    using div3_bounds[of row] div3_bounds[of column] by (simp only: in_square_bounds)
qed

text \<open>
  Claim C9. For rows and columns in 0..8, \<open>get_square_code\<close> is
  \<open>(row div 3) * 3 + column div 3\<close>; each of the nine squares has 9 distinct positions,
  all inside the grid; a position belongs to the square \<open>sq\<close> exactly when \<open>sq\<close> is its
  square code, so the nine squares partition the 81 cells; the cell at a position is in the
  cell list of its square; and square 4 is rows 3..5 by columns 3..5.
\<close>

theorem square_mapping:
  "(\<forall>row < 9. \<forall>column < 9. get_square_code row column = (row div 3) * 3 + column div 3) \<and>
   (\<forall>sq < 9. length (get_square_positions sq) = 9 \<and> distinct (get_square_positions sq) \<and>
              length (get_square_cells g sq) = 9) \<and>
   (\<forall>row < 9. \<forall>column < 9. \<forall>sq < 9.
      (row, column) \<in> set (get_square_positions sq) \<longleftrightarrow> sq = get_square_code row column) \<and>
   (\<forall>sq < 9. \<forall>p \<in> set (get_square_positions sq). in_grid p) \<and>
   (\<forall>row < 9. \<forall>column < 9.
      cell_at g (row, column) \<in> set (get_square_cells g (get_square_code row column))) \<and>
   set (get_square_positions 4) = {3, 4, 5} \<times> {3, 4, 5}"
proof (intro conjI allI impI ballI)
  fix sq :: nat assume sq: "sq < 9"
  then have c: "sq \<in> {0, 1, 2, 3, 4, 5, 6, 7, 8}" by (rule less_9_cases)
  show "length (get_square_positions sq) = 9"
    using c by (elim insertE emptyE) (simp_all add: get_square_positions_values)
  then show "length (get_square_cells g sq) = 9"
    by (simp add: get_square_cells_def)
  show "distinct (get_square_positions sq)"
    using c by (elim insertE emptyE) (simp_all add: get_square_positions_values)
  show "in_grid p" if "p \<in> set (get_square_positions sq)" for p
    using that in_square_iff[OF sq, of "fst p" "snd p"] by (simp add: in_grid_def)
next
  fix row column :: nat assume rc: "row < 9" "column < 9"
  show "get_square_code row column = row div 3 * 3 + column div 3"
    using rc by (rule get_square_code_div)
  show "((row, column) \<in> set (get_square_positions sq)) = (sq = get_square_code row column)"
    if "sq < 9" for sq
    using in_square_iff[OF that, of row column] rc by auto
  have "(row, column) \<in> set (get_square_positions (get_square_code row column))"
    using in_square_iff[OF get_square_code_less[OF rc], of row column] rc by simp
  then show "cell_at g (row, column) \<in> set (get_square_cells g (get_square_code row column))"
    by (simp add: get_square_cells_def)
next
  show "set (get_square_positions 4) = {3, 4, 5} \<times> {3, 4, 5}"
    by (auto simp: get_square_positions_values)
qed

theorem square_mapping_witness:
  "get_square_code 4 7 = 5 \<and> (4, 7) \<in> set (get_square_positions 5) \<and>
   (4, 7) \<notin> set (get_square_positions 4) \<and>
   length (get_square_positions 5) = 9 \<and> in_grid (4, 7) \<and>
   cell_at (SudokuGrid_init []) (4, 7) \<in> set (get_square_cells (SudokuGrid_init []) 5)"
proof -
  have c: "get_square_code 4 7 = 5"
    by (simp add: get_square_code_def)
  have i: "in_grid (4, 7)" by (simp add: in_grid_def)
  note t = square_mapping[of "SudokuGrid_init []"]
  have n: "(4::nat) < 9" "(7::nat) < 9" "(5::nat) < 9" by simp_all
  note t3 = t[THEN conjunct2, THEN conjunct2, THEN conjunct1, rule_format]
  have m5: "((4, 7) \<in> set (get_square_positions 5)) = (5 = get_square_code 4 7)"
    by (rule t3[OF n(1) n(2) n(3)])
  have m4: "((4, 7) \<in> set (get_square_positions 4)) = (4 = get_square_code 4 7)"
    by (rule t3[OF n(1) n(2) n(1)])
  have l: "length (get_square_positions 5) = 9"
    by (rule t[THEN conjunct2, THEN conjunct1, rule_format, OF n(3), THEN conjunct1])
  have e: "cell_at (SudokuGrid_init []) (4, 7)
      \<in> set (get_square_cells (SudokuGrid_init []) (get_square_code 4 7))"
    by (rule t[THEN conjunct2, THEN conjunct2, THEN conjunct2, THEN conjunct2, THEN conjunct1,
          rule_format, OF n(1) n(2)])
  show ?thesis
    using c i m5 m4 l e by simp
qed

lemma invariant_A_can_value_be_determined:
  assumes "invariant_A c"
  shows "invariant_A (snd (can_value_be_determined c))"
proof (cases "\<not> is_value_certain c \<and> length (cell_possible c) = 1")
  case True
  then obtain x where x: "cell_possible c = [x]"
    by (auto simp: length_Suc_conv)
  have "snd (can_value_be_determined c) = set_value c x"
    using True x by (simp add: can_value_be_determined_def)
  then show ?thesis
    using x by (simp add: invariant_A_def set_value_def get_value_def)
next
  case False
  then have "snd (can_value_be_determined c) = c"
    by (auto simp: can_value_be_determined_def)
  then show ?thesis using assms by simp
qed

lemma invariant_A_init: "invariant_A (SudokuCell_init v)"
  by (simp add: invariant_A_def SudokuCell_init_def cell_defs)

lemma invariant_A_uncertain: "\<not> is_value_certain c \<Longrightarrow> invariant_A c"
  by (simp add: invariant_A_def cell_defs)

lemma set_value_to_impossible_certain:
  "is_value_certain (set_value_to_impossible c v) = is_value_certain c"
  by (simp add: set_value_to_impossible_def cell_defs)

lemma invariant_A_eliminate:
  assumes "invariant_A self" "invariant_A other"
  shows "invariant_A (fst (snd (eliminate_conflicting_values self other)))"
    and "invariant_A (snd (snd (eliminate_conflicting_values self other)))"
proof -
  have u: "invariant_A (snd (can_value_be_determined (set_value_to_impossible c v)))"
    if "\<not> is_value_certain c" for c v
    using that
    by (intro invariant_A_can_value_be_determined invariant_A_uncertain)
      (simp add: set_value_to_impossible_certain)
  show "invariant_A (fst (snd (eliminate_conflicting_values self other)))"
    using assms u[of self "get_value other"]
    by (simp add: eliminate_conflicting_values_def Let_def split_beta)
  show "invariant_A (snd (snd (eliminate_conflicting_values self other)))"
    using assms u[of other "get_value self"]
    by (simp add: eliminate_conflicting_values_def Let_def split_beta)
qed

text \<open>
  Claim C2, as stated, fails: \<open>set_value\<close> stores the value and leaves the candidates
  alone, so the cell built unknown and then set to 5, directly or through the grid, has value
  5 and still all nine candidates.
\<close>

theorem invariant_A_fails:
  "get_value (set_value (SudokuCell_init 0) 5) = 5 \<and>
   set (cell_possible (set_value (SudokuCell_init 0) 5)) = {1, 2, 3, 4, 5, 6, 7, 8, 9} \<and>
   \<not> invariant_A (set_value (SudokuCell_init 0) 5) \<and>
   \<not> invariant_A (cell_at (Grid_set_value (SudokuGrid_init []) 0 0 5) (0, 0))"
proof -
  have i: "in_grid (0, 0)" by (simp add: in_grid_def)
  have c: "cell_at (Grid_set_value (SudokuGrid_init []) 0 0 5) (0, 0) = set_value (SudokuCell_init 0) 5"
    by (simp add: Grid_set_value_def cell_at_put_cell i cell_at_init DEFAULT_VALUE_def)
  have s: "set_value (SudokuCell_init 0) 5 =
      \<lparr>cell_value = 5, cell_possible = [1, 2, 3, 4, 5, 6, 7, 8, 9], cell_impossible = []\<rparr>"
    by (simp add: SudokuCell_init_def cell_defs upto_1_9)
  show ?thesis
    unfolding c unfolding s by (simp add: invariant_A_def get_value_def) 
qed

text \<open>
  Claim C2, amended. A certain cell has its value as only candidate after construction and
  after cloning (of a cell, and of every cell of a cloned grid), and
  \<open>can_value_be_determined\<close> and \<open>eliminate_conflicting_values\<close> keep it so.
  \<open>set_value\<close> sets the value and keeps the candidates as they are; a grid made by
  \<open>create_from_matrix\<close> therefore has the matrix entries as values and all nine
  candidates in every cell.
\<close>

theorem invariant_A_where_kept:
  "invariant_A (SudokuCell_init v) \<and>
   invariant_A (clone_cell c) \<and>
   (invariant_A c \<longrightarrow> invariant_A (snd (can_value_be_determined c))) \<and>
   (invariant_A self \<and> invariant_A other \<longrightarrow>
      invariant_A (fst (snd (eliminate_conflicting_values self other))) \<and>
      invariant_A (snd (snd (eliminate_conflicting_values self other)))) \<and>
   (wf_grid g \<longrightarrow> (\<forall>p. in_grid p \<longrightarrow> invariant_A (cell_at (clone g) p))) \<and>
   cell_possible (set_value c v) = cell_possible c \<and>
   (is_9x9 matrix \<longrightarrow>
      (\<exists>g'. create_from_matrix matrix = Inr g' \<and>
         (\<forall>p. in_grid p \<longrightarrow>
            get_value (cell_at g' p) = matrix ! fst p ! snd p \<and>
            cell_possible (cell_at g' p) = [1, 2, 3, 4, 5, 6, 7, 8, 9])))"
proof (intro conjI impI)
  show "invariant_A (SudokuCell_init v)" by (rule invariant_A_init)
  show "invariant_A (clone_cell c)" by (simp add: clone_cell_def invariant_A_init)
  show "invariant_A c \<Longrightarrow> invariant_A (snd (can_value_be_determined c))"
    by (rule invariant_A_can_value_be_determined)
  show "invariant_A (fst (snd (eliminate_conflicting_values self other)))"
    if "invariant_A self \<and> invariant_A other"
    using that invariant_A_eliminate(1) by blast
  show "invariant_A (snd (snd (eliminate_conflicting_values self other)))"
    if "invariant_A self \<and> invariant_A other"
    using that invariant_A_eliminate(2) by blast
  show "\<forall>p. in_grid p \<longrightarrow> invariant_A (cell_at (clone g) p)" if "wf_grid g"
    using clone_spec(4)[OF that] by (simp add: clone_cell_def invariant_A_init)
  show "cell_possible (set_value c v) = cell_possible c"
    by (simp add: set_value_def)
  show "\<exists>g'. create_from_matrix matrix = Inr g' \<and>
         (\<forall>p. in_grid p \<longrightarrow>
            get_value (cell_at g' p) = matrix ! fst p ! snd p \<and>
            cell_possible (cell_at g' p) = [1, 2, 3, 4, 5, 6, 7, 8, 9])" if "is_9x9 matrix"
  proof -
    from create_from_matrix_spec[OF that]
    obtain g' where g': "create_from_matrix matrix = Inr g'"
      "\<forall>p. in_grid p \<longrightarrow>
         cell_at g' p = set_value (SudokuCell_init DEFAULT_VALUE) (matrix ! fst p ! snd p)"
      by blast
    have "get_value (cell_at g' p) = matrix ! fst p ! snd p \<and>
            cell_possible (cell_at g' p) = [1, 2, 3, 4, 5, 6, 7, 8, 9]" if "in_grid p" for p
      using g'(2)[rule_format, OF that] by (simp add: SudokuCell_init_def cell_defs upto_1_9)
    then show ?thesis using g'(1) by blast
  qed
qed

theorem invariant_A_where_kept_witness:
  "invariant_A (SudokuCell_init 5) \<and>
   invariant_A \<lparr>cell_value = 0, cell_possible = [4, 7], cell_impossible = [1, 2, 3, 5, 6, 8, 9]\<rparr> \<and>
   snd (can_value_be_determined
          \<lparr>cell_value = 0, cell_possible = [4], cell_impossible = [1, 2, 3, 5, 6, 7, 8, 9]\<rparr>) =
     \<lparr>cell_value = 4, cell_possible = [4], cell_impossible = [1, 2, 3, 5, 6, 7, 8, 9]\<rparr> \<and>
   invariant_A (snd (can_value_be_determined
          \<lparr>cell_value = 0, cell_possible = [4], cell_impossible = [1, 2, 3, 5, 6, 7, 8, 9]\<rparr>)) \<and>
   invariant_A (fst (snd (eliminate_conflicting_values
          \<lparr>cell_value = 0, cell_possible = [4, 7], cell_impossible = [1, 2, 3, 5, 6, 8, 9]\<rparr>
          (SudokuCell_init 7)))) \<and>
   wf_grid narrowed_grid \<and> in_grid (0, 0) \<and>
   invariant_A (cell_at (clone narrowed_grid) (0, 0)) \<and>
   is_9x9 example_matrix \<and>
   (\<exists>g'. create_from_matrix example_matrix = Inr g' \<and>
      get_value (cell_at g' (0, 0)) = 5 \<and>
      cell_possible (cell_at g' (0, 0)) = [1, 2, 3, 4, 5, 6, 7, 8, 9])"
proof -
  let ?u = "\<lparr>cell_value = 0, cell_possible = [4, 7], cell_impossible = [1, 2, 3, 5, 6, 8, 9]\<rparr>"
  let ?w = "\<lparr>cell_value = 0, cell_possible = [4], cell_impossible = [1, 2, 3, 5, 6, 7, 8, 9]\<rparr>"
  have a: "invariant_A ?u" "invariant_A ?w"
    by (simp_all add: invariant_A_def get_value_def)
  have d: "snd (can_value_be_determined ?w) =
     \<lparr>cell_value = 4, cell_possible = [4], cell_impossible = [1, 2, 3, 5, 6, 7, 8, 9]\<rparr>"
    by (simp add: can_value_be_determined_def cell_defs)
  have w: "wf_grid narrowed_grid" by (simp add: narrowed_grid_def)
  have i: "in_grid (0, 0)" by (simp add: in_grid_def)
  have m: "is_9x9 example_matrix" by (simp add: is_9x9_def example_matrix_def)
  have e: "example_matrix ! 0 ! 0 = 5" by (simp add: example_matrix_def)
  note t = invariant_A_where_kept[of 5 ?w ?u "SudokuCell_init 7" narrowed_grid example_matrix]
  have t1: "invariant_A (SudokuCell_init 5)"
    by (rule t[THEN conjunct1])
  have t3: "invariant_A (snd (can_value_be_determined ?w))"
    by (rule t[THEN conjunct2, THEN conjunct2, THEN conjunct1, rule_format, OF a(2)])
  have s7: "invariant_A (SudokuCell_init 7)" by (rule invariant_A_init)
  have t4: "invariant_A (fst (snd (eliminate_conflicting_values ?u (SudokuCell_init 7))))"
    by (rule t[THEN conjunct2, THEN conjunct2, THEN conjunct2, THEN conjunct1, rule_format,
          OF conjI[OF a(1) s7], THEN conjunct1])
  have t5: "invariant_A (cell_at (clone narrowed_grid) (0, 0))"
    by (rule t[THEN conjunct2, THEN conjunct2, THEN conjunct2, THEN conjunct2, THEN conjunct1,
          rule_format, OF w i])
  from t[THEN conjunct2, THEN conjunct2, THEN conjunct2, THEN conjunct2, THEN conjunct2,
          THEN conjunct2, rule_format, OF m]
  obtain g' where g': "create_from_matrix example_matrix = Inr g'"
    "\<forall>p. in_grid p \<longrightarrow>
            get_value (cell_at g' p) = example_matrix ! fst p ! snd p \<and>
            cell_possible (cell_at g' p) = [1, 2, 3, 4, 5, 6, 7, 8, 9]"
    by blast
  have "get_value (cell_at g' (0, 0)) = 5 \<and>
      cell_possible (cell_at g' (0, 0)) = [1, 2, 3, 4, 5, 6, 7, 8, 9]"
    using g'(2)[rule_format, OF i] e by simp
  then have t6: "\<exists>g'. create_from_matrix example_matrix = Inr g' \<and>
      get_value (cell_at g' (0, 0)) = 5 \<and>
      cell_possible (cell_at g' (0, 0)) = [1, 2, 3, 4, 5, 6, 7, 8, 9]"
    using g'(1) by blast
  show ?thesis
    by (intro conjI) (fact t1 a(1) d t3 t4 w i t5 m t6)+
qed

subsection \<open>The hidden-single pass\<close>

lemma find_possible_cells_take:
  "length possible_cells \<le> 2 \<Longrightarrow>
   find_possible_cells g v ps possible_cells =
     take 2 (possible_cells @ filter (\<lambda>p. is_value_possible (cell_at g p) v) ps)"
proof (induction ps arbitrary: possible_cells)
  case Nil
  then show ?case by simp
next
  case (Cons p ps)
  show ?case
  proof (cases "length possible_cells < 2")
    case True
    then have l: "length (possible_cells @ [p]) \<le> 2" by simp
    show ?thesis
      using True Cons.IH[OF l] Cons.IH[OF Cons.prems] by simp
  next
    case False
    then show ?thesis using Cons.prems by simp
  qed
qed

lemma values_to_check_set:
  "set (values_to_check g sq) =
     {d. 1 \<le> d \<and> d \<le> 9 \<and> d \<notin> get_value ` set (get_square_cells g sq)}"
  by (auto simp: values_to_check_def Let_def)

lemma values_to_check_filter:
  "values_to_check g sq =
     filter (\<lambda>d. d \<notin> get_value ` set (get_square_cells g sq)) [1, 2, 3, 4, 5, 6, 7, 8, 9]"
proof -
  have "values_to_check g sq =
     filter (\<lambda>d. d \<notin> get_value ` set (get_square_cells g sq)) [1..9]"
    unfolding values_to_check_def Let_def by (rule filter_cong) auto
  then show ?thesis by (simp only: upto_1_9)
qed



subsection \<open>Unfolding the loop of solve\<close>

lemma solve_loop_continue:
  assumes "n \<noteq> 0" and "is_solved g = Some (Inr False, g1)"
    and "solve_pass g1 = (Inr (), n', g2)"
  shows "solve_loop n k g = solve_loop n' (k + 1) g2"
  using assms by (subst solve_loop.simps) simp

lemma solve_loop_stop: "solve_loop 0 k g = is_solved g"
  by (subst solve_loop.simps) simp

subsection \<open>A grid on which solve does not return\<close>

lemma looping_start_created:
  "\<exists>g. create_from_matrix looping_matrix = Inr g \<and> looping_start = clone g"
proof -
  have "is_9x9 looping_matrix" by (simp add: is_9x9_def looping_matrix_def)
  from create_from_matrix_spec[OF this]
  show ?thesis unfolding looping_start_def by auto
qed

lemma looping_start_unsolved: "is_solved looping_start = Some (Inr False, looping_start)"
  by code_simp

lemma looping_start_pass: "solve_pass looping_start = (Inr (), 3, after_pass looping_start)"
proof -
  have "fst (solve_pass looping_start) = Inr () \<and> fst (snd (solve_pass looping_start)) = 3"
    by code_simp
  then show ?thesis
    by (simp add: after_pass_def prod_eq_iff)
qed

lemma second_unsolved:
  "is_solved (after_pass looping_start) = Some (Inr False, after_pass looping_start)"
  by code_simp

lemma second_pass: "solve_pass (after_pass looping_start) = (Inr (), 1, looping_state)"
  by code_simp

lemma looping_state_unsolved: "is_solved looping_state = Some (Inr False, looping_state)"
  by code_simp

lemma looping_state_pass: "solve_pass looping_state = (Inr (), 1, looping_state')"
  by code_simp

lemma looping_state'_unsolved: "is_solved looping_state' = Some (Inr False, looping_state')"
  by code_simp

lemma looping_state'_pass: "solve_pass looping_state' = (Inr (), 1, looping_state)"
  by code_simp

lemma solve_loop_cycle:
  assumes "solve_loop n k g = Some y"
  shows "n = 0 \<or> (g \<noteq> looping_state \<and> g \<noteq> looping_state')"
proof (rule solve_loop.raw_induct
    [where P = "\<lambda>n k g y. n = 0 \<or> (g \<noteq> looping_state \<and> g \<noteq> looping_state')",
      OF _ assms], goal_cases)
  case (1 f n k g y)
  show ?case
  proof (rule ccontr)
    assume "\<not> (n = 0 \<or> g \<noteq> looping_state \<and> g \<noteq> looping_state')"
    then have n: "n \<noteq> 0" and g: "g = looping_state \<or> g = looping_state'" by auto
    from g show False
    proof
      assume "g = looping_state"
      then have "f 1 (k + 1) looping_state' = Some y"
        using 1(2) n by (simp add: looping_state_unsolved looping_state_pass)
      from 1(1)[OF this] show False by simp
    next
      assume "g = looping_state'"
      then have "f 1 (k + 1) looping_state = Some y"
        using 1(2) n by (simp add: looping_state'_unsolved looping_state'_pass)
      from 1(1)[OF this] show False by simp
    qed
  qed
qed

text \<open>
  Claim C4 says that \<open>solve\<close> returns on every grid after at most 82 passes of its
  loop. On the grid built from \<open>looping_matrix\<close> and cloned, as the menu does before it
  solves, \<open>solve\<close> never returns. After two passes the grid is \<open>looping_state\<close>, where
  the cell at row 2, column 2 has the value 8 and the candidates 8 and 9 (the hidden-single
  pass set its value and left its candidates); every later pass finds that cell as the only
  one of square 0 listing the digit it does not hold, assigns that digit and counts one new
  determination, so the grid goes from \<open>looping_state\<close> to \<open>looping_state'\<close> and back
  for ever.
\<close>

theorem solve_never_returns:
  "(\<exists>g. create_from_matrix looping_matrix = Inr g \<and> solve (clone g) = None) \<and>
   get_as_matrix looping_state ! 2 ! 2 = 8 \<and> get_as_matrix looping_state' ! 2 ! 2 = 9 \<and>
   solve_pass looping_state = (Inr (), 1, looping_state') \<and>
   solve_pass looping_state' = (Inr (), 1, looping_state)"
proof -
  have "solve looping_start = solve_loop 3 (0 + 1) (after_pass looping_start)"
    unfolding solve_def
    by (rule solve_loop_continue[OF _ looping_start_unsolved looping_start_pass]) simp
  also have "\<dots> = solve_loop 1 (0 + 1 + 1) looping_state"
    by (rule solve_loop_continue[OF _ second_unsolved second_pass]) simp
  also have "\<dots> = None"
    using solve_loop_cycle[of 1 "0 + 1 + 1" looping_state]
    by (cases "solve_loop 1 (0 + 1 + 1) looping_state") auto
  finally have "solve looping_start = None" .
  then have a: "\<exists>g. create_from_matrix looping_matrix = Inr g \<and> solve (clone g) = None"
    using looping_start_created by auto
  have b: "get_as_matrix looping_state ! 2 ! 2 = 8" by code_simp
  have c: "get_as_matrix looping_state' ! 2 ! 2 = 9" by code_simp
  show ?thesis
    using a b c looping_state_pass looping_state'_pass by blast
qed

subsection \<open>Statements and invariants\<close>

lemma tripleI:
  assumes "\<And>s r s'. P s \<Longrightarrow> c s = (r, s') \<Longrightarrow> (case r of Inl e \<Rightarrow> E e s' | Inr u \<Rightarrow> Q s')"
  shows "triple P c Q E"
  using assms unfolding triple_def by blast

lemma tripleD:
  assumes "triple P c Q E" "P s" "c s = (r, s')"
  shows "case r of Inl e \<Rightarrow> E e s' | Inr u \<Rightarrow> Q s'"
  using assms unfolding triple_def by blast

lemma triple_Inr: "triple P c Q E \<Longrightarrow> P s \<Longrightarrow> c s = (Inr u, s') \<Longrightarrow> Q s'"
  by (drule (2) tripleD) simp

lemma triple_Inl: "triple P c Q E \<Longrightarrow> P s \<Longrightarrow> c s = (Inl e, s') \<Longrightarrow> E e s'"
  by (drule (2) tripleD) simp

lemma triple_weaken:
  assumes "triple P c Q E" "\<And>s. P' s \<Longrightarrow> P s" "\<And>s. Q s \<Longrightarrow> Q' s" "\<And>e s. E e s \<Longrightarrow> E' e s"
  shows "triple P' c Q' E'"
proof (rule tripleI)
  fix s r s' assume a: "P' s" "c s = (r, s')"
  have "case r of Inl e \<Rightarrow> E e s' | Inr u \<Rightarrow> Q s'"
    by (rule tripleD[OF assms(1) assms(2)[OF a(1)] a(2)])
  then show "case r of Inl e \<Rightarrow> E' e s' | Inr u \<Rightarrow> Q' s'"
    using assms(3,4) by (cases r) auto
qed

lemma triple_for_loop:
  assumes "\<And>x. x \<in> set xs \<Longrightarrow> triple I (body x) I E"
  shows "triple I (for_loop xs body) I E"
  using assms
proof (induction xs)
  case Nil
  show ?case by (rule tripleI) auto
next
  case (Cons x xs)
  have b: "triple I (body x) I E" using Cons.prems by simp
  have r: "triple I (for_loop xs body) I E" using Cons by simp
  show ?case
  proof (rule tripleI)
    fix s r s' assume I: "I s" and f: "for_loop (x # xs) body s = (r, s')"
    obtain r1 s1 where s1: "body x s = (r1, s1)" by (cases "body x s")
    show "case r of Inl e \<Rightarrow> E e s' | Inr u \<Rightarrow> I s'"
    proof (cases r1)
      case (Inl e)
      then have "r = Inl e" "s' = s1" using f s1 by simp_all
      then show ?thesis using triple_Inl[OF b I] s1 Inl by simp
    next
      case (Inr u)
      then have "for_loop xs body s1 = (r, s')" using f s1 by simp
      moreover have "I s1" using triple_Inr[OF b I] s1 Inr by simp
      ultimately show ?thesis by (rule tripleD[OF r, rotated])
    qed
  qed
qed

lemma triple_then_do:
  assumes "triple P a Q E" "triple Q b R E"
  shows "triple P (then_do a b) R E"
proof (rule tripleI)
  fix s r s' assume P: "P s" and f: "then_do a b s = (r, s')"
  obtain r1 s1 where s1: "a s = (r1, s1)" by (cases "a s")
  show "case r of Inl e \<Rightarrow> E e s' | Inr u \<Rightarrow> R s'"
  proof (cases r1)
    case (Inl e)
    then have "r = Inl e" "s' = s1" using f s1 by (simp_all add: then_do_def)
    then show ?thesis using triple_Inl[OF assms(1) P] s1 Inl by simp
  next
    case (Inr u)
    then have "b s1 = (r, s')" using f s1 by (simp add: then_do_def)
    moreover have "Q s1" using triple_Inr[OF assms(1) P] s1 Inr by simp
    ultimately show ?thesis by (rule tripleD[OF assms(2), rotated])
  qed
qed

lemma triple_do_if:
  assumes "triple (\<lambda>s. P s \<and> cond s) body Q E" "\<And>s. P s \<Longrightarrow> \<not> cond s \<Longrightarrow> Q s"
  shows "triple P (do_if cond body) Q E"
proof (rule tripleI)
  fix s r s' assume P: "P s" and f: "do_if cond body s = (r, s')"
  show "case r of Inl e \<Rightarrow> E e s' | Inr u \<Rightarrow> Q s'"
  proof (cases "cond s")
    case True
    then have "body s = (r, s')" using f by (simp add: do_if_def)
    then show ?thesis by (rule tripleD[OF assms(1) conjI[OF P True]])
  next
    case False
    then have "r = Inr ()" "s' = s" using f by (simp_all add: do_if_def)
    then show ?thesis using assms(2)[OF P False] by simp
  qed
qed

lemma set_all_positions: "set all_positions = {p. in_grid p}"
  unfolding all_positions_def set_product set_upt
  by (auto simp: in_grid_def)

lemma consistent_iff:
  "consistent g sol \<longleftrightarrow>
     (\<forall>p. in_grid p \<longrightarrow>
        (is_value_certain (cell_at g p) \<longrightarrow> get_value (cell_at g p) = sol_at sol p) \<and>
        sol_at sol p \<in> set (cell_possible (cell_at g p)))"
  by (simp add: consistent_def list_all_iff set_all_positions is_value_possible_def)

lemma each_once_set:
  assumes "each_once xs" "length xs = 9"
  shows "set xs = {1..9}" and "distinct xs"
proof -
  have c: "count_list xs d = 1" if "1 \<le> d" "d \<le> 9" for d
    using assms(1) that by (simp add: each_once_def list_all_iff)
  have sub: "{1..9} \<subseteq> set xs"
  proof
    fix d :: int assume "d \<in> {1..9}"
    then have "count_list xs d = 1" using c by simp
    then show "d \<in> set xs" using count_list_0_iff[of xs d] by auto
  qed
  have "sum (count_list xs) (set xs) = length xs"
    by (rule sum_count_set) simp_all
  moreover have "sum (count_list xs) (set xs) =
      sum (count_list xs) (set xs - {1..9}) + sum (count_list xs) {1..9}"
    by (rule sum.subset_diff[OF sub]) simp
  moreover have "sum (count_list xs) {1..9::int} = 9"
  proof -
    have "sum (count_list xs) {1..9::int} = sum (\<lambda>d. 1) {1..9::int}"
      by (rule sum.cong) (simp_all add: c)
    then show ?thesis by simp
  qed
  ultimately have "sum (count_list xs) (set xs - {1..9}) = 0"
    using assms(2) by simp
  then have "\<forall>d \<in> set xs - {1..9}. count_list xs d = 0"
    by simp
  then have "set xs - {1..9} = {}"
    using count_list_0_iff[of xs] by blast
  then show s: "set xs = {1..9}" using sub by blast
  have "card (set xs) = 9" unfolding s by simp
  then show "distinct xs" using assms(2) by (simp add: card_distinct)
qed

lemma square_positions_length: "sq < 9 \<Longrightarrow> length (get_square_positions sq) = 9"
  by (simp add: get_square_positions_def Let_def length_concat sum_list_triv o_def)

lemma valid_sudoku_parts:
  assumes "valid_sudoku m" "i < 9"
  shows "length (m ! i) = 9" "each_once (m ! i)" "each_once (column_values m i)"
    "each_once (square_values m i)"
  using assms by (simp_all add: valid_sudoku_def is_9x9_def list_all_length)

lemma valid_sudoku_square_has:
  assumes "valid_sudoku m" "sq < 9" "1 \<le> d" "d \<le> 9"
  shows "\<exists>t \<in> set (get_square_positions sq). sol_at m t = d"
proof -
  have l: "length (square_values m sq) = 9"
    using assms(2) square_positions_length by (simp add: square_values_def)
  have "set (square_values m sq) = {1..9}"
    by (rule each_once_set(1)[OF valid_sudoku_parts(4)[OF assms(1,2)] l])
  then have "d \<in> set (square_values m sq)" using assms(3,4) by simp
  then show ?thesis by (auto simp: square_values_def)
qed

lemma valid_sudoku_peers:
  assumes "valid_sudoku m" "in_grid p" "in_grid q" "peers p q"
  shows "sol_at m p \<noteq> sol_at m q"
proof -
  have pq: "fst p < 9" "snd p < 9" "fst q < 9" "snd q < 9" "p \<noteq> q"
    using assms(2,3,4) by (simp_all add: in_grid_def peers_def)
  consider (row) "fst p = fst q" | (col) "snd p = snd q"
    | (sq) "get_square_code (fst p) (snd p) = get_square_code (fst q) (snd q)"
    using assms(4) by (auto simp: peers_def)
  then show ?thesis
  proof cases
    case row
    then have ne: "snd p \<noteq> snd q" using pq(5) by (simp add: prod_eq_iff)
    have d: "distinct (m ! fst p)"
      using each_once_set(2) valid_sudoku_parts(1,2)[OF assms(1) pq(1)] by blast
    have "m ! fst p ! snd p \<noteq> m ! fst p ! snd q"
      using d ne pq valid_sudoku_parts(1)[OF assms(1) pq(1)]
      by (simp add: nth_eq_iff_index_eq)
    then show ?thesis using row by (simp add: sol_at_def)
  next
    case col
    then have ne: "fst p \<noteq> fst q" using pq(5) by (simp add: prod_eq_iff)
    have l: "length (column_values m (snd p)) = 9" by (simp add: column_values_def)
    have d: "distinct (column_values m (snd p))"
      using each_once_set(2)[OF valid_sudoku_parts(3)[OF assms(1) pq(2)] l] .
    have "column_values m (snd p) ! fst p \<noteq> column_values m (snd p) ! fst q"
      using d ne pq l by (simp add: nth_eq_iff_index_eq)
    then show ?thesis using col pq by (simp add: sol_at_def column_values_def)
  next
    case sq
    let ?sq = "get_square_code (fst p) (snd p)"
    have s9: "?sq < 9" using pq by (simp add: get_square_code_less)
    have l: "length (square_values m ?sq) = 9"
      using s9 square_positions_length by (simp add: square_values_def)
    have d: "distinct (square_values m ?sq)"
      using each_once_set(2)[OF valid_sudoku_parts(4)[OF assms(1) s9] l] .
    then have inj: "inj_on (sol_at m) (set (get_square_positions ?sq))"
      by (simp add: square_values_def distinct_map)
    have "p \<in> set (get_square_positions ?sq)" "q \<in> set (get_square_positions ?sq)"
      using in_square_iff[OF s9, of "fst p" "snd p"] in_square_iff[OF s9, of "fst q" "snd q"] pq sq
      by simp_all
    then show ?thesis using inj pq(5) by (auto dest: inj_onD)
  qed
qed

lemma peers_same_row: "k \<noteq> column \<Longrightarrow> peers (row, k) (row, column)"
  by (simp add: peers_def)

lemma peers_same_column: "k \<noteq> row \<Longrightarrow> peers (k, column) (row, column)"
  by (simp add: peers_def)

lemma peers_same_square:
  assumes "row < 9" "column < 9" "p \<in> set (get_square_positions (get_square_code row column))"
    "p \<noteq> (row, column)"
  shows "peers p (row, column)" "in_grid p"
proof -
  have s: "get_square_code row column < 9" using assms(1,2) by (rule get_square_code_less)
  have "fst p < 9 \<and> snd p < 9 \<and> get_square_code (fst p) (snd p) = get_square_code row column"
    using in_square_iff[OF s, of "fst p" "snd p"] assms(3) by simp
  then show "peers p (row, column)" "in_grid p"
    using assms(4) by (simp_all add: peers_def in_grid_def)
qed

lemma use_cell_rule:
  assumes wf: "\<And>s. I s \<Longrightarrow> wf_grid (snd s)"
    and elim: "\<And>p q. in_grid p \<Longrightarrow> in_grid q \<Longrightarrow> peers p q \<Longrightarrow>
        triple (\<lambda>s. (I s \<and> is_value_certain (cell_at (snd s) q)) \<and> uncertain_at p s)
               (eliminate_peer p q)
               (\<lambda>s. I s \<and> is_value_certain (cell_at (snd s) q)) E"
    and mark: "\<And>row column. row < 9 \<Longrightarrow> column < 9 \<Longrightarrow> triple I (mark_used row column) I E"
    and rc: "row < 9" "column < 9"
  shows "triple (\<lambda>s. I s \<and> is_value_certain (cell_at (snd s) (row, column)))
           (use_cell row column) I E"
proof -
  let ?q = "(row, column)"
  let ?J = "\<lambda>s. I s \<and> is_value_certain (cell_at (snd s) ?q)"
  let ?rowcol = "\<lambda>k. then_do
            (do_if (\<lambda>s. k \<noteq> column \<and> uncertain_at (row, k) s)
               (eliminate_peer (row, k) (row, column)))
            (do_if (\<lambda>s. k \<noteq> row \<and> uncertain_at (k, column) s)
               (eliminate_peer (k, column) (row, column)))"
  let ?square = "\<lambda>p. do_if (\<lambda>s. p \<noteq> (row, column) \<and> uncertain_at p s)
               (eliminate_peer p (row, column))"
  have q: "in_grid ?q" using rc by (simp add: in_grid_def)
  have guarded: "triple ?J (do_if (\<lambda>s. c \<and> uncertain_at p s) (eliminate_peer p ?q)) ?J E"
    if "c \<Longrightarrow> in_grid p \<and> peers p ?q" for c p
  proof (rule triple_do_if)
    show "triple (\<lambda>s. ?J s \<and> c \<and> uncertain_at p s) (eliminate_peer p ?q) ?J E"
    proof (cases c)
      case True
      then have "in_grid p" "peers p ?q" using that by simp_all
      from elim[OF this(1) q this(2)] show ?thesis
        by (rule triple_weaken) simp_all
    next
      case False
      then show ?thesis by (simp add: triple_def)
    qed
  qed simp
  have k: "triple ?J (?rowcol k) ?J E" if "k < 9" for k
  proof (rule triple_then_do)
    show "triple ?J (do_if (\<lambda>s. k \<noteq> column \<and> uncertain_at (row, k) s)
               (eliminate_peer (row, k) ?q)) ?J E"
      using that rc by (intro guarded) (simp add: in_grid_def peers_same_row)
    show "triple ?J (do_if (\<lambda>s. k \<noteq> row \<and> uncertain_at (k, column) s)
               (eliminate_peer (k, column) ?q)) ?J E"
      using that rc by (intro guarded) (simp add: in_grid_def peers_same_column)
  qed
  have loop1: "triple ?J (for_loop [0..<9] ?rowcol) ?J E"
    by (rule triple_for_loop) (simp add: k)
  have loop2: "triple ?J (for_loop (get_square_positions (get_square_code row column)) ?square) ?J E"
  proof (rule triple_for_loop)
    fix p assume "p \<in> set (get_square_positions (get_square_code row column))"
    then show "triple ?J (?square p) ?J E"
      using peers_same_square[OF rc] by (intro guarded) simp
  qed
  have m: "triple ?J (mark_used row column) I E"
    by (rule triple_weaken[OF mark[OF rc]]) simp_all
  have all: "triple ?J (then_do (for_loop [0..<9] ?rowcol)
      (then_do (for_loop (get_square_positions (get_square_code row column)) ?square)
         (mark_used row column))) I E"
    by (rule triple_then_do[OF loop1 triple_then_do[OF loop2 m]])
  show ?thesis
  proof (rule tripleI)
    fix s r s' assume J: "?J s" and u: "use_cell row column s = (r, s')"
    have "length (grid (snd s)) = 9" using wf J by (simp add: wf_grid_nth)
    then have "then_do (for_loop [0..<9] ?rowcol)
      (then_do (for_loop (get_square_positions (get_square_code row column)) ?square)
         (mark_used row column)) s = (r, s')"
      using u by (simp add: use_cell_def)
    then show "case r of Inl e \<Rightarrow> E e s' | Inr u \<Rightarrow> I s'"
      by (rule tripleD[OF all J])
  qed
qed

lemma eliminate_all_rule:
  assumes wf: "\<And>s. I s \<Longrightarrow> wf_grid (snd s)"
    and elim: "\<And>p q. in_grid p \<Longrightarrow> in_grid q \<Longrightarrow> peers p q \<Longrightarrow>
        triple (\<lambda>s. (I s \<and> is_value_certain (cell_at (snd s) q)) \<and> uncertain_at p s)
               (eliminate_peer p q)
               (\<lambda>s. I s \<and> is_value_certain (cell_at (snd s) q)) E"
    and mark: "\<And>row column. row < 9 \<Longrightarrow> column < 9 \<Longrightarrow> triple I (mark_used row column) I E"
  shows "triple I eliminate_all I E"
proof -
  let ?cell = "\<lambda>row column. do_if (\<lambda>s. is_value_certain (cell_at (snd s) (row, column)) \<and>
                    \<not> used_cell (snd s) ! row ! column) (use_cell row column)"
  have c: "triple I (?cell row column) I E" if "row < 9" "column < 9" for row column
  proof (rule triple_do_if)
    show "triple (\<lambda>s. I s \<and> is_value_certain (cell_at (snd s) (row, column)) \<and>
                    \<not> used_cell (snd s) ! row ! column) (use_cell row column) I E"
      by (rule triple_weaken[OF use_cell_rule[OF wf elim mark that]]) simp_all
  qed simp
  have all: "triple I (for_loop [0..<9] (\<lambda>row. for_loop [0..<9] (?cell row))) I E"
    by (intro triple_for_loop c) simp_all
  show ?thesis
  proof (rule tripleI)
    fix s r s' assume I: "I s" and u: "eliminate_all s = (r, s')"
    have "length (grid (snd s)) = 9" using wf I by (simp add: wf_grid_nth)
    then have "for_loop [0..<9] (\<lambda>row. for_loop [0..<9] (?cell row)) s = (r, s')"
      using u by (simp add: eliminate_all_def)
    then show "case r of Inl e \<Rightarrow> E e s' | Inr u \<Rightarrow> I s'"
      by (rule tripleD[OF all I])
  qed
qed

lemma solve_pass_rule:
  assumes wf: "\<And>s. I s \<Longrightarrow> wf_grid (snd s)"
    and elim: "\<And>p q. in_grid p \<Longrightarrow> in_grid q \<Longrightarrow> peers p q \<Longrightarrow>
        triple (\<lambda>s. (I s \<and> is_value_certain (cell_at (snd s) q)) \<and> uncertain_at p s)
               (eliminate_peer p q)
               (\<lambda>s. I s \<and> is_value_certain (cell_at (snd s) q)) E"
    and mark: "\<And>row column. row < 9 \<Longrightarrow> column < 9 \<Longrightarrow> triple I (mark_used row column) I E"
    and check: "\<And>sq. sq < 9 \<Longrightarrow> triple I (check_square sq) I E"
    and start: "I (0, g)" and pass: "solve_pass g = (r, s')"
  shows "case r of Inl e \<Rightarrow> E e s' | Inr u \<Rightarrow> I s'"
proof -
  have c: "triple I check_all_squares I E"
  proof (rule tripleI)
    fix s r s' assume I: "I s" and u: "check_all_squares s = (r, s')"
    have "triple I (for_loop [0..<9] check_square) I E"
      by (intro triple_for_loop check) simp
    from tripleD[OF this I] u show "case r of Inl e \<Rightarrow> E e s' | Inr u \<Rightarrow> I s'"
      by (simp add: check_all_squares_def)
  qed
  have "triple I (then_do eliminate_all check_all_squares) I E"
    by (rule triple_then_do[OF eliminate_all_rule[OF wf elim mark] c])
  from tripleD[OF this start] pass show ?thesis
    by (simp add: solve_pass_def)
qed

subsection \<open>Grids that agree with a solution\<close>

lemma consistentD:
  assumes "consistent g sol" "in_grid p"
  shows "is_value_certain (cell_at g p) \<Longrightarrow> get_value (cell_at g p) = sol_at sol p"
    and "sol_at sol p \<in> set (cell_possible (cell_at g p))"
  using assms unfolding consistent_iff by blast+

lemma consistentI:
  assumes "\<And>p. in_grid p \<Longrightarrow> is_value_certain (cell_at g p) \<Longrightarrow>
              get_value (cell_at g p) = sol_at sol p"
    and "\<And>p. in_grid p \<Longrightarrow> sol_at sol p \<in> set (cell_possible (cell_at g p))"
  shows "consistent g sol"
  using assms unfolding consistent_iff by blast

lemma eliminate_keeps_candidate:
  assumes "\<not> is_value_certain u" "x \<in> set (cell_possible u)" "v \<noteq> x"
    and "can_value_be_determined (set_value_to_impossible u v) = (res, u')"
  shows "\<exists>b. res = Inr b" "x \<in> set (cell_possible u')" "is_value_certain u' \<Longrightarrow> get_value u' = x"
proof -
  let ?w = "set_value_to_impossible u v"
  have unc: "\<not> is_value_certain ?w"
    using assms(1) by (simp add: set_value_to_impossible_certain)
  have x: "x \<in> set (cell_possible ?w)"
    using assms(2,3) by (simp add: set_value_to_impossible_possible)
  note c = can_value_be_determined_cases[OF assms(4)]
  show "x \<in> set (cell_possible u')" using c(1) x by simp
  have "res \<noteq> Inl e" for e using c(4)[of e] x by auto
  then show "\<exists>b. res = Inr b" by (cases res) auto
  show "get_value u' = x" if "is_value_certain u'"
  proof (cases "res = Inr True")
    case True
    then show ?thesis using c(5) x by simp
  next
    case False
    then show ?thesis using c(6) unc that by simp
  qed
qed

lemma eliminate_peer_sound:
  assumes v: "valid_sudoku sol" and pq: "in_grid p" "in_grid q" "peers p q"
  shows "triple (\<lambda>s. (sound_state sol s \<and> is_value_certain (cell_at (snd s) q)) \<and> uncertain_at p s)
           (eliminate_peer p q)
           (\<lambda>s. sound_state sol s \<and> is_value_certain (cell_at (snd s) q)) (\<lambda>e s. False)"
proof (rule tripleI)
  fix s r s'
  assume pre: "(sound_state sol s \<and> is_value_certain (cell_at (snd s) q)) \<and> uncertain_at p s"
    and e: "eliminate_peer p q s = (r, s')"
  obtain n g where s: "s = (n, g)" by (cases s)
  let ?self = "cell_at g p" and ?other = "cell_at g q"
  have wf: "wf_grid g" and co: "consistent g sol" and cq: "is_value_certain ?other"
    and up: "\<not> is_value_certain ?self"
    using pre by (simp_all add: s sound_state_def uncertain_at_def)
  obtain res u' where d: "can_value_be_determined (set_value_to_impossible ?self (get_value ?other)) = (res, u')"
    by (cases "can_value_be_determined (set_value_to_impossible ?self (get_value ?other))")
  have ec: "eliminate_conflicting_values ?self ?other = (res, u', ?other)"
    using cq up d by (simp add: eliminate_conflicting_values_def)
  have ne: "p \<noteq> q" using pq(3) by (simp add: peers_def)
  have vq: "get_value ?other = sol_at sol q" using consistentD(1)[OF co pq(2) cq] .
  have xp: "sol_at sol p \<in> set (cell_possible ?self)" using consistentD(2)[OF co pq(1)] .
  have dif: "get_value ?other \<noteq> sol_at sol p"
    using valid_sudoku_peers[OF v pq] vq by simp
  note k = eliminate_keeps_candidate[OF up xp dif d]
  obtain b where b: "res = Inr b" using k(1) by blast
  let ?g' = "put_cell (put_cell g p u') q ?other"
  have s': "r = Inr ()" "s' = (n + of_bool b, ?g')"
    using e ec b by (simp_all add: eliminate_peer_def s)
  have wf': "wf_grid ?g'" using wf by simp
  have at: "cell_at ?g' x = (if x = q then ?other else if x = p then u' else cell_at g x)" for x
    using wf pq(1,2) by (simp add: cell_at_put_cell)
  have "consistent ?g' sol"
  proof (rule consistentI)
    fix x assume x: "in_grid x"
    show "get_value (cell_at ?g' x) = sol_at sol x" if "is_value_certain (cell_at ?g' x)"
      using that k(3) consistentD(1)[OF co x] by (auto simp: at split: if_splits)
    show "sol_at sol x \<in> set (cell_possible (cell_at ?g' x))"
      using k(2) consistentD(2)[OF co x] by (auto simp: at)
  qed
  then show "case r of Inl e \<Rightarrow> False | Inr u \<Rightarrow> sound_state sol s' \<and> is_value_certain (cell_at (snd s') q)"
    using s' wf' cq by (simp add: sound_state_def at)
qed

lemma wf_grid_used_update:
  assumes "wf_grid g"
  shows "wf_grid (g\<lparr>used_cell := (used_cell g)[row := (used_cell g ! row)[column := b]]\<rparr>)"
proof (rule wf_gridI)
  show "length (used_cell (g\<lparr>used_cell := (used_cell g)[row := (used_cell g ! row)[column := b]]\<rparr>) ! i) = 9"
    if "i < 9" for i
    using assms that by (cases "i = row") (simp_all add: wf_grid_nth)
qed (use assms in \<open>simp_all add: wf_grid_nth\<close>)

lemma cell_at_used_update [simp]: "cell_at (g\<lparr>used_cell := u\<rparr>) p = cell_at g p"
  by (simp add: cell_at_def)

lemma mark_used_sound: "triple (sound_state sol) (mark_used row column) (sound_state sol) E"
proof (rule tripleI)
  fix s r s' assume pre: "sound_state sol s" and m: "mark_used row column s = (r, s')"
  obtain n g where s: "s = (n, g)" by (cases s)
  have "r = Inr ()" "s' = (n, g\<lparr>used_cell := (used_cell g)[row := (used_cell g ! row)[column := True]]\<rparr>)"
    using m by (simp_all add: mark_used_def s)
  then show "case r of Inl e \<Rightarrow> E e s' | Inr u \<Rightarrow> sound_state sol s'"
    using pre by (simp add: sound_state_def s wf_grid_used_update consistent_iff)
qed

lemma check_value_sound:
  assumes v: "valid_sudoku sol" and sq: "sq < 9" and d: "1 \<le> d" "d \<le> 9"
  shows "triple (sound_state sol) (check_value (get_square_positions sq) d) (sound_state sol)
           (\<lambda>e s. False)"
proof (rule tripleI)
  fix s r s' assume pre: "sound_state sol s" and c: "check_value (get_square_positions sq) d s = (r, s')"
  obtain n g where s: "s = (n, g)" by (cases s)
  have wf: "wf_grid g" and co: "consistent g sol" using pre by (simp_all add: s sound_state_def)
  obtain t where t: "t \<in> set (get_square_positions sq)" "sol_at sol t = d"
    using valid_sudoku_square_has[OF v sq d] by blast
  have tg: "in_grid t" using in_square_iff[OF sq, of "fst t" "snd t"] t(1) by (simp add: in_grid_def)
  have th: "t \<in> set (holders g sq d)"
    using t consistentD(2)[OF co tg] by (simp add: holders_def is_value_possible_def)
  have f: "find_possible_cells g d (get_square_positions sq) [] = take 2 (holders g sq d)"
    by (simp add: find_possible_cells_take holders_def)
  show "case r of Inl e \<Rightarrow> False | Inr u \<Rightarrow> sound_state sol s'"
  proof (cases "length (holders g sq d) = 1")
    case True
    then obtain t' where "holders g sq d = [t']" by (auto simp: length_Suc_conv)
    then have h: "holders g sq d = [t]" using th by simp
    let ?g' = "put_cell g t (set_value (cell_at g t) d)"
    have r: "r = Inr ()" "s' = (n + 1, ?g')"
      using c by (simp_all add: check_value_def s f h)
    have "consistent ?g' sol"
    proof (rule consistentI)
      fix x assume x: "in_grid x"
      show "get_value (cell_at ?g' x) = sol_at sol x" if "is_value_certain (cell_at ?g' x)"
        using that consistentD(1)[OF co x] t(2)
        by (auto simp: cell_at_put_cell[OF wf tg] set_value_def get_value_def split: if_splits)
      show "sol_at sol x \<in> set (cell_possible (cell_at ?g' x))"
        using consistentD(2)[OF co x]
        by (auto simp: cell_at_put_cell[OF wf tg] set_value_def)
    qed
    then show ?thesis using r wf by (simp add: sound_state_def)
  next
    case False
    then have "2 \<le> length (holders g sq d)"
      using th by (cases "holders g sq d") (auto simp: Suc_le_eq)
    then have "r = Inr ()" "s' = s"
      using c by (simp_all add: check_value_def s f)
    then show ?thesis using pre by simp
  qed
qed

lemma check_square_sound:
  assumes v: "valid_sudoku sol" and sq: "sq < 9"
  shows "triple (sound_state sol) (check_square sq) (sound_state sol) (\<lambda>e s. False)"
proof (rule tripleI)
  fix s r s' assume pre: "sound_state sol s" and c: "check_square sq s = (r, s')"
  have "triple (sound_state sol) (for_loop (values_to_check (snd s) sq)
          (check_value (get_square_positions sq))) (sound_state sol) (\<lambda>e s. False)"
  proof (rule triple_for_loop)
    fix d assume "d \<in> set (values_to_check (snd s) sq)"
    then have "1 \<le> d" "d \<le> 9" by (simp_all add: values_to_check_set)
    then show "triple (sound_state sol) (check_value (get_square_positions sq) d)
        (sound_state sol) (\<lambda>e s. False)"
      by (rule check_value_sound[OF v sq])
  qed
  from tripleD[OF this pre] c show "case r of Inl e \<Rightarrow> False | Inr u \<Rightarrow> sound_state sol s'"
    by (simp add: check_square_def)
qed

lemma solve_pass_sound:
  assumes "valid_sudoku sol" "wf_grid g" "consistent g sol" "solve_pass g = (r, n, g')"
  shows "r = Inr ()" "wf_grid g'" "consistent g' sol"
proof -
  have "case r of Inl e \<Rightarrow> False | Inr u \<Rightarrow> sound_state sol (n, g')"
  proof (rule solve_pass_rule[where I = "sound_state sol" and E = "\<lambda>e s. False", OF _ _ _ _ _ assms(4)])
    show "wf_grid (snd s)" if "sound_state sol s" for s
      using that by (simp add: sound_state_def)
    show "sound_state sol (0, g)" using assms(2,3) by (simp add: sound_state_def)
  qed (rule eliminate_peer_sound[OF assms(1)] mark_used_sound check_square_sound[OF assms(1)]; assumption)+
  then show "r = Inr ()" "wf_grid g'" "consistent g' sol"
    by (cases r; simp add: sound_state_def)+
qed

subsection \<open>is_solved and the loop of solve on such grids\<close>

lemma index_position_in_grid: "index < 81 \<Longrightarrow> in_grid (index_position index)"
  by (simp add: index_position_def in_grid_def less_mult_imp_div_less)

lemma index_position_inj: "index_position i = index_position j \<Longrightarrow> i = j"
  by (metis index_position_def div_mult_mod_eq prod.inject)

lemma index_position_surj: "in_grid p \<Longrightarrow> \<exists>i < 81. index_position i = p"
  by (rule exI[of _ "fst p * 9 + snd p"]) (auto simp: index_position_def in_grid_def)

lemma all_certain_iff: "all_certain g \<longleftrightarrow> (\<forall>p. in_grid p \<longrightarrow> is_value_certain (cell_at g p))"
  by (simp add: all_certain_def list_all_iff set_all_positions)

lemma is_solved_loop_unfold:
  assumes "wf_grid g"
  shows "is_solved_loop solved index g =
     (if solved \<and> index < 81 then
        if \<not> is_value_certain (cell_at g (index_position index)) then
          (case can_value_be_determined (cell_at g (index_position index)) of
             (Inl e, c) \<Rightarrow> Some (Inl e, put_cell g (index_position index) c)
           | (Inr determined, c) \<Rightarrow>
               if \<not> determined
               then is_solved_loop False index (put_cell g (index_position index) c)
               else is_solved_loop solved index (put_cell g (index_position index) c))
        else is_solved_loop solved (index + 1) g
      else Some (Inr solved, g))"
proof -
  have l: "length (grid g) = 9" "length (grid g ! 0) = 9"
    using assms by (simp_all add: wf_grid_nth)
  have d: "(index - index mod 9) div 9 = index div 9"
    by (simp add: minus_mod_eq_mult_div)
  show ?thesis
    by (subst is_solved_loop.simps)
      (simp add: l Let_def d index_position_def split: prod.splits sum.splits)
qed

lemma put_cell_same:
  assumes "wf_grid g" "in_grid p"
  shows "put_cell g p (cell_at g p) = g"
  using assms by (simp add: put_cell_def cell_at_def in_grid_def wf_grid_nth)

lemma consistent_put_cell:
  assumes "wf_grid g" "in_grid p" "consistent g sol"
    and "is_value_certain c \<Longrightarrow> get_value c = sol_at sol p"
    and "sol_at sol p \<in> set (cell_possible c)"
  shows "consistent (put_cell g p c) sol"
proof (rule consistentI)
  fix x assume x: "in_grid x"
  show "get_value (cell_at (put_cell g p c) x) = sol_at sol x"
    if "is_value_certain (cell_at (put_cell g p c) x)"
    using that assms(4) consistentD(1)[OF assms(3) x]
    by (auto simp: cell_at_put_cell[OF assms(1,2)] split: if_splits)
  show "sol_at sol x \<in> set (cell_possible (cell_at (put_cell g p c) x))"
    using assms(5) consistentD(2)[OF assms(3) x]
    by (auto simp: cell_at_put_cell[OF assms(1,2)])
qed

lemma is_solved_loop_sound:
  assumes "is_solved_loop solved index g = Some y"
  shows "wf_grid g \<and> consistent g sol \<and>
           (solved \<longrightarrow> (\<forall>j<index. is_value_certain (cell_at g (index_position j)))) \<longrightarrow>
         (\<exists>b g'. y = (Inr b, g') \<and> wf_grid g' \<and> consistent g' sol \<and>
            (b \<longrightarrow> (\<forall>j<81. is_value_certain (cell_at g' (index_position j)))))"
proof (rule is_solved_loop.raw_induct[where P = "\<lambda>solved index g y.
         wf_grid g \<and> consistent g sol \<and>
           (solved \<longrightarrow> (\<forall>j<index. is_value_certain (cell_at g (index_position j)))) \<longrightarrow>
         (\<exists>b g'. y = (Inr b, g') \<and> wf_grid g' \<and> consistent g' sol \<and>
            (b \<longrightarrow> (\<forall>j<81. is_value_certain (cell_at g' (index_position j)))))",
      OF _ assms], goal_cases)
  case (1 f solved index g y)
  show ?case
  proof (intro impI, elim conjE)
    assume wf: "wf_grid g" and co: "consistent g sol"
      and before: "solved \<longrightarrow> (\<forall>j<index. is_value_certain (cell_at g (index_position j)))"
    let ?p = "index_position index"
    let ?c = "cell_at g ?p"
    have l: "length (grid g) = 9" "length (grid g ! 0) = 9"
      using wf by (simp_all add: wf_grid_nth)
    have d: "((index - index mod 9) div 9, index mod 9) = ?p"
      by (simp add: minus_mod_eq_mult_div index_position_def)
    note eq = 1(2)[unfolded l Let_def d]
    show "\<exists>b g'. y = (Inr b, g') \<and> wf_grid g' \<and> consistent g' sol \<and>
            (b \<longrightarrow> (\<forall>j<81. is_value_certain (cell_at g' (index_position j))))"
    proof (cases "solved \<and> index < 9 * 9")
      case False
      then have "y = (Inr solved, g)" using eq by auto
      then show ?thesis using wf co before False by auto
    next
      case True
      then have p: "in_grid ?p" by (simp add: index_position_in_grid)
      show ?thesis
      proof (cases "is_value_certain ?c")
        case c: True
        then have "f solved (index + 1) g = Some y" using eq True by simp
        moreover have "\<forall>j<index + 1. is_value_certain (cell_at g (index_position j))"
          using before True c by (auto simp: less_Suc_eq)
        ultimately show ?thesis using 1(1) wf co by blast
      next
        case c: False
        obtain res c' where cv: "can_value_be_determined ?c = (res, c')"
          by (cases "can_value_be_determined ?c")
        note k = can_value_be_determined_cases[OF cv]
        have x: "sol_at sol ?p \<in> set (cell_possible ?c)" using consistentD(2)[OF co p] .
        have "res \<noteq> Inl e" for e using k(4)[of e] x by auto
        then obtain b where b: "res = Inr b" by (cases res) auto
        have co': "consistent (put_cell g ?p c') sol"
        proof (rule consistent_put_cell[OF wf p co])
          show "sol_at sol ?p \<in> set (cell_possible c')" using k(1) x by simp
          show "get_value c' = sol_at sol ?p" if "is_value_certain c'"
          proof (cases b)
            case True
            then show ?thesis using k(5) x b by simp
          next
            case False
            then show ?thesis using k(6) b c that by simp
          qed
        qed
        have wf': "wf_grid (put_cell g ?p c')" using wf by simp
        show ?thesis
        proof (cases b)
          case False
          then have "f False index (put_cell g ?p c') = Some y"
            using eq True c cv b by simp
          then show ?thesis using 1(1) wf' co' by blast
        next
          case b': True
          then have "f solved index (put_cell g ?p c') = Some y"
            using eq True c cv b by simp
          moreover have "\<forall>j<index. is_value_certain (cell_at (put_cell g ?p c') (index_position j))"
          proof (intro allI impI)
            fix j assume j: "j < index"
            then have "index_position j \<noteq> ?p" using index_position_inj by blast
            then show "is_value_certain (cell_at (put_cell g ?p c') (index_position j))"
              using before True j by (simp add: cell_at_put_cell[OF wf p])
          qed
          ultimately show ?thesis using 1(1) wf' co' by blast
        qed
      qed
    qed
  qed
qed

lemma is_solved_sound:
  assumes "wf_grid g" "consistent g sol" "is_solved g = Some y"
  shows "\<exists>b g'. y = (Inr b, g') \<and> wf_grid g' \<and> consistent g' sol \<and> (b \<longrightarrow> all_certain g')"
proof -
  from is_solved_loop_sound[OF assms(3)[unfolded is_solved_def], of sol] assms(1,2)
  obtain b g' where r: "y = (Inr b, g')" "wf_grid g'" "consistent g' sol"
    "b \<longrightarrow> (\<forall>j<81. is_value_certain (cell_at g' (index_position j)))"
    by auto
  have "all_certain g'" if b
    unfolding all_certain_iff using r(4) that index_position_surj by blast
  then show ?thesis using r by blast
qed

lemma solve_loop_sound:
  assumes v: "valid_sudoku sol" and s: "solve_loop n k g = Some y"
  shows "wf_grid g \<and> consistent g sol \<longrightarrow>
         (\<exists>b g'. y = (Inr b, g') \<and> wf_grid g' \<and> consistent g' sol \<and> (b \<longrightarrow> all_certain g'))"
proof (rule solve_loop.raw_induct[where P = "\<lambda>n k g y. wf_grid g \<and> consistent g sol \<longrightarrow>
         (\<exists>b g'. y = (Inr b, g') \<and> wf_grid g' \<and> consistent g' sol \<and> (b \<longrightarrow> all_certain g'))",
      OF _ s], goal_cases)
  case (1 f n k g y)
  show ?case
  proof (intro impI, elim conjE)
    assume wf: "wf_grid g" and co: "consistent g sol"
    show "\<exists>b g'. y = (Inr b, g') \<and> wf_grid g' \<and> consistent g' sol \<and> (b \<longrightarrow> all_certain g')"
    proof (cases "n = 0")
      case True
      then have "is_solved g = Some y" using 1(2) by simp
      then show ?thesis by (rule is_solved_sound[OF wf co])
    next
      case False
      then obtain y1 where y1: "is_solved g = Some y1"
        using 1(2) by (cases "is_solved g") auto
      from is_solved_sound[OF wf co y1]
      obtain b g1 where r: "y1 = (Inr b, g1)" "wf_grid g1" "consistent g1 sol" by blast
      show ?thesis
      proof (cases b)
        case True
        then have "is_solved g1 = Some y" using 1(2) False y1 r(1) by simp
        then show ?thesis by (rule is_solved_sound[OF r(2,3)])
      next
        case b: False
        obtain r2 n2 g2 where p: "solve_pass g1 = (r2, n2, g2)" by (cases "solve_pass g1") auto
        note ps = solve_pass_sound[OF v r(2,3) p]
        have "f n2 (k + 1) g2 = Some y"
          using 1(2) False y1 r(1) b p ps(1) by simp
        then show ?thesis using 1(1) ps(2,3) by blast
      qed
    qed
  qed
qed

subsection \<open>What solve returns true on\<close>

lemma valid_sudoku_entry:
  assumes "valid_sudoku sol" "in_grid p"
  shows "1 \<le> sol_at sol p" "sol_at sol p \<le> 9"
proof -
  have p: "fst p < 9" "snd p < 9" using assms(2) by (simp_all add: in_grid_def)
  have "set (sol ! fst p) = {1..9}"
    using each_once_set(1) valid_sudoku_parts(1,2)[OF assms(1) p(1)] by blast
  moreover have "sol_at sol p \<in> set (sol ! fst p)"
    using p valid_sudoku_parts(1)[OF assms(1) p(1)] by (simp add: sol_at_def)
  ultimately show "1 \<le> sol_at sol p" "sol_at sol p \<le> 9" by simp_all
qed

lemma agreesD: "agrees m sol \<Longrightarrow> in_grid p \<Longrightarrow> sol_at m p \<noteq> 0 \<Longrightarrow> sol_at m p = sol_at sol p"
  unfolding agrees_def list_all_iff set_all_positions by blast

lemma created_consistent:
  assumes v: "valid_sudoku sol" and m: "is_9x9 m" "agrees m sol"
  shows "\<exists>g0. create_from_matrix m = Inr g0 \<and> wf_grid g0 \<and> consistent g0 sol \<and>
           wf_grid (clone g0) \<and> consistent (clone g0) sol"
proof -
  from create_from_matrix_spec[OF m(1)]
  obtain g0 where g0: "create_from_matrix m = Inr g0" "wf_grid g0"
    "\<forall>p. in_grid p \<longrightarrow>
        cell_at g0 p = set_value (SudokuCell_init DEFAULT_VALUE) (m ! fst p ! snd p)"
    by blast
  have c0: "cell_at g0 p =
      \<lparr>cell_value = sol_at m p, cell_possible = [1, 2, 3, 4, 5, 6, 7, 8, 9], cell_impossible = []\<rparr>"
    if "in_grid p" for p
    using g0(3)[rule_format, OF that] by (simp add: SudokuCell_init_def cell_defs upto_1_9 sol_at_def)
  have in19: "sol_at sol p \<in> set [1, 2, 3, 4, 5, 6, 7, 8, 9]" if "in_grid p" for p
    using valid_sudoku_entry[OF v that] by (simp flip: upto_1_9)
  have a: "consistent g0 sol"
  proof (rule consistentI)
    fix p assume p: "in_grid p"
    show "get_value (cell_at g0 p) = sol_at sol p" if "is_value_certain (cell_at g0 p)"
      using that agreesD[OF m(2) p] by (simp add: c0[OF p] cell_defs)
    show "sol_at sol p \<in> set (cell_possible (cell_at g0 p))"
      using in19[OF p] by (simp add: c0[OF p])
  qed
  have b: "consistent (clone g0) sol"
  proof (rule consistentI)
    fix p assume p: "in_grid p"
    have c: "cell_at (clone g0) p = SudokuCell_init (sol_at m p)"
      using clone_spec(4)[OF g0(2) p] by (simp add: clone_cell_def c0[OF p] get_value_def)
    show "get_value (cell_at (clone g0) p) = sol_at sol p" if "is_value_certain (cell_at (clone g0) p)"
      using that agreesD[OF m(2) p] by (simp add: c SudokuCell_init_def cell_defs split: if_splits)
    show "sol_at sol p \<in> set (cell_possible (cell_at (clone g0) p))"
    proof (cases "sol_at m p = 0")
      case True
      then show ?thesis
        using in19[OF p] by (simp add: c SudokuCell_init_def cell_defs upto_1_9 del: set_simps)
    next
      case False
      then show ?thesis
        using agreesD[OF m(2) p False] by (simp add: c SudokuCell_init_def cell_defs)
    qed
  qed
  show ?thesis using g0(1,2) a b clone_spec(1)[OF g0(2)] by blast
qed

lemma all_certain_consistent_matrix:
  assumes "valid_sudoku sol" "wf_grid g" "consistent g sol" "all_certain g"
  shows "get_as_matrix g = sol"
proof (rule matrix_eqI)
  show "is_9x9 (get_as_matrix g)" using assms(2) by (rule is_9x9_get_as_matrix)
  show "is_9x9 sol" using assms(1) by (simp add: valid_sudoku_def)
  fix i j :: nat assume ij: "i < 9" "j < 9"
  then have p: "in_grid (i, j)" by (simp add: in_grid_def)
  have "is_value_certain (cell_at g (i, j))" using assms(4) p by (simp add: all_certain_iff)
  from consistentD(1)[OF assms(3) p this] show "get_as_matrix g ! i ! j = sol ! i ! j"
    using ij assms(2) by (simp add: get_as_matrix_nth sol_at_def)
qed

text \<open>
  Claim C1, amended. Let \<open>sol\<close> be a complete valid Sudoku: a 9x9 matrix in which every
  row, every column and every square contains each of the digits 1..9 exactly once. If the
  certain cells of a grid have the values of \<open>sol\<close> and every cell lists its digit of
  \<open>sol\<close> among its candidates, and \<open>solve\<close> returns true, then the values of the grid
  are \<open>sol\<close>, so every row, column and square contains each of 1..9 exactly once. Every
  grid built by \<open>create_from_matrix\<close> from a 9x9 matrix whose non-zero entries are those
  of \<open>sol\<close> is such a grid, and so is its clone.
\<close>

theorem solve_true_is_solution:
  assumes "valid_sudoku sol"
  shows "(wf_grid g \<and> consistent g sol \<and> solve g = Some (Inr True, g') \<longrightarrow>
            get_as_matrix g' = sol \<and> valid_sudoku (get_as_matrix g')) \<and>
         (is_9x9 m \<and> agrees m sol \<longrightarrow>
            (\<exists>g0. create_from_matrix m = Inr g0 \<and> wf_grid g0 \<and> consistent g0 sol \<and>
                   wf_grid (clone g0) \<and> consistent (clone g0) sol))"
proof (intro conjI impI)
  assume a: "wf_grid g \<and> consistent g sol \<and> solve g = Some (Inr True, g')"
  then have "solve_loop (- 1) 0 g = Some (Inr True, g')" by (simp add: solve_def)
  from solve_loop_sound[OF assms this, rule_format] a
  have "wf_grid g'" "consistent g' sol" "all_certain g'" by auto
  then show m: "get_as_matrix g' = sol"
    by (rule all_certain_consistent_matrix[OF assms])
  show "valid_sudoku (get_as_matrix g')" unfolding m by (rule assms)
next
  assume "is_9x9 m \<and> agrees m sol"
  then show "\<exists>g0. create_from_matrix m = Inr g0 \<and> wf_grid g0 \<and> consistent g0 sol \<and>
                   wf_grid (clone g0) \<and> consistent (clone g0) sol"
    using created_consistent[OF assms] by blast
qed

lemma example_solved: "map_option fst (solve example_start) = Some (Inr True)"
  by code_simp

theorem solve_true_is_solution_witness:
  "valid_sudoku example_solution \<and> is_9x9 example_matrix \<and>
   agrees example_matrix example_solution \<and>
   (\<exists>g0 g'. create_from_matrix example_matrix = Inr g0 \<and> wf_grid (clone g0) \<and>
       consistent (clone g0) example_solution \<and>
       solve (clone g0) = Some (Inr True, g') \<and>
       get_as_matrix g' = example_solution \<and> valid_sudoku (get_as_matrix g'))"
proof -
  have v: "valid_sudoku example_solution" by code_simp
  have i: "is_9x9 example_matrix" by code_simp
  have a: "agrees example_matrix example_solution" by code_simp
  note t = solve_true_is_solution[OF v]
  from t[THEN conjunct2, rule_format, OF conjI[OF i a]]
  obtain g0 where g0: "create_from_matrix example_matrix = Inr g0" "wf_grid (clone g0)"
    "consistent (clone g0) example_solution"
    by blast
  have s: "example_start = clone g0" by (simp add: example_start_def g0(1))
  obtain g' where g': "solve (clone g0) = Some (Inr True, g')"
    using example_solved unfolding s by (cases "solve (clone g0)") auto
  have "get_as_matrix g' = example_solution \<and> valid_sudoku (get_as_matrix g')"
    by (rule t[THEN conjunct1, rule_format, OF conjI[OF g0(2) conjI[OF g0(3) g']]])
  then show ?thesis using v i a g0 g' by blast
qed

text \<open>
  Claim C1, as stated, fails: \<open>solve\<close> does not check the values it is given. On the
  grid whose 81 cells all have the value 5 the loop is not entered, \<open>is_solved\<close> finds
  every cell certain, and \<open>solve\<close> returns true on a grid whose first row does not
  contain each digit once.
\<close>

theorem solve_true_on_invalid_grid:
  "create_from_matrix fives_matrix = Inr fives_created \<and>
   solve (clone fives_created) = Some (Inr True, clone fives_created) \<and>
   get_as_matrix (clone fives_created) = fives_matrix \<and>
   \<not> each_once (get_as_matrix (clone fives_created) ! 0) \<and>
   \<not> valid_sudoku (get_as_matrix (clone fives_created))"
proof -
  have a: "create_from_matrix fives_matrix = Inr fives_created" by code_simp
  have b: "solve (clone fives_created) = Some (Inr True, clone fives_created)" by code_simp
  have c: "get_as_matrix (clone fives_created) = fives_matrix" by code_simp
  have d: "\<not> each_once (get_as_matrix (clone fives_created) ! 0)" by code_simp
  have e: "\<not> valid_sudoku (get_as_matrix (clone fives_created))" by code_simp
  show ?thesis using a b c d e by blast
qed

end
